theory Spec2Isabelle
  imports Main "HOL-Library.AList" "HOL-Library.Multiset"
begin

section \<open>Strings as the Python code uses them\<close>

text \<open>
  Python strings are sequences of code points; the model uses \<^typ>\<open>string\<close>, whose
  characters are the code points U+0000 to U+00FF. \<open>str.strip()\<close> removes the characters
  for which \<open>str.isspace()\<close> holds; in this range they are U+0009 to U+000D, U+001C to
  U+0020, U+0085 and U+00A0. \<open>str.lower()\<close> maps A to Z and the Latin-1 capitals
  (U+00C0 to U+00DE without the multiplication sign U+00D7) to the letter 32 places up.
\<close>

definition py_isspace :: "char \<Rightarrow> bool" where
  "py_isspace c =
     (let n = (of_char c :: nat)
      in (9 \<le> n \<and> n \<le> 13) \<or> (28 \<le> n \<and> n \<le> 32) \<or> n = 133 \<or> n = 160)"

definition strip :: "string \<Rightarrow> string" where
  "strip s = rev (dropWhile py_isspace (rev (dropWhile py_isspace s)))"

definition lower_char :: "char \<Rightarrow> char" where
  "lower_char c =
     (let n = (of_char c :: nat)
      in if (65 \<le> n \<and> n \<le> 90) \<or> (192 \<le> n \<and> n \<le> 222 \<and> n \<noteq> 215)
         then char_of (n + 32) else c)"

definition lower :: "string \<Rightarrow> string" where
  "lower s = map lower_char s"

text \<open>
  \<open>s.partition(sep)\<close> cuts \<open>s\<close> at the first occurrence of \<open>sep\<close> and returns
  \<open>(s, '', '')\<close> when there is none; \<open>s.rpartition(sep)\<close> cuts at the last occurrence
  and returns \<open>('', '', s)\<close> when there is none. Both are only called with a non-empty
  separator here.
\<close>

fun split_first :: "string \<Rightarrow> string \<Rightarrow> (string \<times> string) option" where
  "split_first sep [] = None"
| "split_first sep (c # cs) =
     (if take (length sep) (c # cs) = sep then Some ([], drop (length sep) (c # cs))
      else map_option (\<lambda>(h, p). (c # h, p)) (split_first sep cs))"

definition partition_py :: "string \<Rightarrow> string \<Rightarrow> string \<times> string \<times> string" where
  "partition_py sep s =
     (case split_first sep s of None \<Rightarrow> (s, [], []) | Some (h, p) \<Rightarrow> (h, sep, p))"

definition split_last :: "string \<Rightarrow> string \<Rightarrow> (string \<times> string) option" where
  "split_last sep s =
     (case split_first (rev sep) (rev s) of
        None \<Rightarrow> None
      | Some (a, b) \<Rightarrow> Some (rev b, rev a))"

definition rpartition_py :: "string \<Rightarrow> string \<Rightarrow> string \<times> string \<times> string" where
  "rpartition_py sep s =
     (case split_last sep s of None \<Rightarrow> ([], [], s) | Some (h, p) \<Rightarrow> (h, sep, p))"

text \<open>
  \<open>int(s)\<close> on a string: surrounding whitespace is skipped, one sign is allowed, and the
  rest is decimal digits with single underscores between digits. Anything else raises
  ValueError, which is \<open>None\<close> here. The whitespace that \<open>int\<close> skips is not that of
  \<open>str.strip()\<close>: U+0009 to U+000D, the space, U+0085 and U+00A0 are skipped, but the
  separators U+001C to U+001F are not, and a text that carries one is rejected. (The
  limit of CPython 3.11 on the number of digits, 4300 by default, is not part of the
  model.)
\<close>

definition int_isspace :: "char \<Rightarrow> bool" where
  "int_isspace c =
     (let n = (of_char c :: nat)
      in (9 \<le> n \<and> n \<le> 13) \<or> n = 32 \<or> n = 133 \<or> n = 160)"

definition int_strip :: "string \<Rightarrow> string" where
  "int_strip s = rev (dropWhile int_isspace (rev (dropWhile int_isspace s)))"

definition is_digit :: "char \<Rightarrow> bool" where
  "is_digit c = (let n = (of_char c :: nat) in 48 \<le> n \<and> n \<le> 57)"

fun digitpart :: "string \<Rightarrow> bool" where
  "digitpart [] = False"
| "digitpart [c] = is_digit c"
| "digitpart (c # d # r) =
     (is_digit c \<and> (if d = CHR ''_'' then digitpart r else digitpart (d # r)))"

definition dec_value :: "string \<Rightarrow> int" where
  "dec_value s =
     foldl (\<lambda>a c. 10 * a + (int (of_char c) - 48)) 0 (filter (\<lambda>c. c \<noteq> CHR ''_'') s)"

definition py_int :: "string \<Rightarrow> int option" where
  "py_int s =
     (let t = int_strip s;
          (neg, body) =
            (case t of
               [] \<Rightarrow> (False, [])
             | c # r \<Rightarrow>
                 if c = CHR ''-'' then (True, r)
                 else if c = CHR ''+'' then (False, r)
                 else (False, t))
      in if digitpart body then Some (if neg then - dec_value body else dec_value body)
         else None)"

section \<open>The endpoint parser\<close>

text \<open>
  \<open>split_endpoint\<close> of \<open>peer_limiter_daemon.py\<close>: strip, reject the empty string and
  \<open>(none)\<close>, cut a bracketed address at \<open>]:\<close> and any other at the last colon, reject
  an empty host or port, and convert the port with \<open>int\<close> (a ValueError gives \<open>None\<close>).
\<close>

definition split_endpoint :: "string \<Rightarrow> (string \<times> int) option" where
  "split_endpoint endpoint0 =
     (let endpoint = strip endpoint0
      in if endpoint = [] \<or> lower endpoint = ''(none)'' then None
         else
           let (host, port) =
                 (if take 1 endpoint = ''[''
                  then (case partition_py '']:'' (drop 1 endpoint) of (h, _, p) \<Rightarrow> (h, p))
                  else (case rpartition_py '':'' endpoint of (h, _, p) \<Rightarrow> (h, p)))
           in if host = [] \<or> port = [] then None
              else (case py_int port of None \<Rightarrow> None | Some n \<Rightarrow> Some (host, n)))"


section \<open>Settings of a peer\<close>

text \<open>
  \<open>modules/PeerLimits.py\<close>. A row of the settings table reaches \<open>from_row\<close> as a mapping
  from column names to values; the values modelled are SQL NULL, integers and strings
  (floats and bytes are left out). \<open>mapping.get(k)\<close> is \<open>None\<close> for a missing column.
  A \<open>ValueError\<close> is raised in two places: by \<open>int\<close> on a string that is no integer,
  and by \<open>PeerLimitPolicy.from_string\<close> on a value that names no policy.
\<close>

datatype pyval = PNone | PInt int | PStr string

datatype error = InvalidLiteral string | UnsupportedPolicy pyval

datatype PeerLimitPolicy = NEW_WINS | OLD_WINS

record PeerLimitSettings =
  max_concurrent :: "int option"
  policy :: PeerLimitPolicy
  ttl_seconds :: int
  grace_seconds :: int

definition default_settings :: PeerLimitSettings where
  "default_settings =
     \<lparr>max_concurrent = None, policy = NEW_WINS, ttl_seconds = 180, grace_seconds = 5\<rparr>"

definition from_string :: "pyval \<Rightarrow> error + PeerLimitPolicy" where
  "from_string v =
     (case v of
        PNone \<Rightarrow> Inr NEW_WINS
      | PStr s \<Rightarrow>
          if s = ''new_wins'' then Inr NEW_WINS
          else if s = ''old_wins'' then Inr OLD_WINS
          else Inl (UnsupportedPolicy v)
      | PInt n \<Rightarrow> Inl (UnsupportedPolicy v))"

definition row_get :: "(string \<rightharpoonup> pyval) \<Rightarrow> string \<Rightarrow> pyval" where
  "row_get mapping k = (case mapping k of None \<Rightarrow> PNone | Some v \<Rightarrow> v)"

definition from_row :: "(string \<rightharpoonup> pyval) \<Rightarrow> error + PeerLimitSettings" where
  "from_row mapping =
     (case (case row_get mapping ''max_concurrent'' of
              PStr s \<Rightarrow> (case py_int s of None \<Rightarrow> Inl (InvalidLiteral s) | Some n \<Rightarrow> Inr (PInt n))
            | v \<Rightarrow> Inr v) of
        Inl e \<Rightarrow> Inl e
      | Inr mc \<Rightarrow>
          (case from_string (row_get mapping ''connection_policy'') of
             Inl e \<Rightarrow> Inl e
           | Inr pol \<Rightarrow>
               let ttl = (case row_get mapping ''session_ttl'' of PInt n \<Rightarrow> n | _ \<Rightarrow> 180);
                   grace = (case row_get mapping ''grace_seconds'' of PInt n \<Rightarrow> n | _ \<Rightarrow> 5)
               in Inr \<lparr>max_concurrent =
                          (case mc of PInt n \<Rightarrow> if n \<le> 0 then None else Some n | _ \<Rightarrow> None),
                        policy = pol,
                        ttl_seconds = max ttl 1,
                        grace_seconds = max grace 0\<rparr>))"

text \<open>
  \<open>PeerLimitStore.get_peer_settings\<close> of \<open>peer_limiter_daemon.py\<close>. The database maps a
  table name (the interface) to its rows by peer id; a table that cannot be loaded and
  a missing row both give the defaults. Nothing in it catches what \<open>from_row\<close> raises.
\<close>

type_synonym database = "string \<rightharpoonup> (string \<rightharpoonup> (string \<rightharpoonup> pyval))"

definition get_peer_settings :: "database \<Rightarrow> string \<Rightarrow> string \<Rightarrow> error + PeerLimitSettings" where
  "get_peer_settings db interface peer_id =
     (case db interface of
        None \<Rightarrow> Inr default_settings
      | Some table \<Rightarrow>
          (case table peer_id of
             None \<Rightarrow> Inr default_settings
           | Some row \<Rightarrow> from_row row))"

section \<open>The session tracker\<close>

text \<open>
  A \<open>datetime\<close> is a number of microseconds since the epoch (all of them are UTC), so
  \<open>timedelta(seconds=n)\<close> is \<open>n * 1000000\<close> and \<open>datetime.fromtimestamp(h)\<close> is
  \<open>seconds h\<close>. The tracker's \<open>_sessions\<close> maps a key (interface, peer) to a dict from
  endpoint to session; that dict keeps insertion order, so it is an association list.
\<close>

type_synonym datetime = int

definition seconds :: "int \<Rightarrow> int" where
  "seconds n = n * 1000000"

record PeerSession =
  endpoint :: string
  first_seen :: datetime
  last_seen :: datetime
  last_handshake :: "datetime option"
  rx_bytes :: int
  tx_bytes :: int
  rx_delta :: int
  tx_delta :: int

type_synonym sessions = "(string \<times> PeerSession) list"

type_synonym tracker = "(string \<times> string) \<rightharpoonup> sessions"

definition sessions_of :: "tracker \<Rightarrow> string \<times> string \<Rightarrow> sessions" where
  "sessions_of tr key = (case tr key of None \<Rightarrow> [] | Some ss \<Rightarrow> ss)"

definition session_of :: "tracker \<Rightarrow> string \<times> string \<Rightarrow> string \<Rightarrow> PeerSession option" where
  "session_of tr key ep = map_of (sessions_of tr key) ep"

text \<open>
  \<open>_expire\<close>: nothing to do for a missing or empty dict; otherwise every endpoint whose
  session was last seen before \<open>now - max(ttl, 1)\<close> seconds is deleted, and a dict left
  empty is popped.
\<close>

definition expire :: "tracker \<Rightarrow> string \<times> string \<Rightarrow> int \<Rightarrow> datetime \<Rightarrow> tracker" where
  "expire tr key ttl now =
     (case tr key of
        None \<Rightarrow> tr
      | Some ss \<Rightarrow>
          if ss = [] then tr
          else
            let expiry = now - seconds (max ttl 1);
                stale = map fst (filter (\<lambda>(ep, s). last_seen s < expiry) ss);
                ss' = fold AList.delete stale ss
            in if ss' = [] then tr(key := None) else tr(key \<mapsto> ss'))"

text \<open>
  \<open>observe\<close> returns the list of the key's sessions and the tracker it leaves behind.
  \<open>latest_handshake\<close> is \<open>None\<close> or an integer; 0 and \<open>None\<close> are both falsy.
\<close>

definition observe ::
  "tracker \<Rightarrow> string \<Rightarrow> string \<Rightarrow> string option \<Rightarrow> int option \<Rightarrow> int \<Rightarrow> int \<Rightarrow>
   PeerLimitSettings \<Rightarrow> datetime \<Rightarrow> PeerSession list \<times> tracker" where
  "observe tr interface peer_id ep0 latest_handshake rx tx settings now =
     (let key = (interface, peer_id);
          tr1 = expire tr key (ttl_seconds settings) now;
          ep = strip (case ep0 of None \<Rightarrow> [] | Some e \<Rightarrow> e);
          ss = sessions_of tr1 key;
          ss' =
            (if ep \<noteq> [] \<and> lower ep \<noteq> ''(none)'' then
               let handshake_dt =
                     (case latest_handshake of
                        None \<Rightarrow> None
                      | Some h \<Rightarrow> if h = 0 then None else Some (seconds h))
               in (case map_of ss ep of
                     Some existing \<Rightarrow>
                       let rxd = max 0 (rx - rx_bytes existing);
                           txd = max 0 (tx - tx_bytes existing);
                           seen = (if rxd \<noteq> 0 \<or> txd \<noteq> 0 then now else last_seen existing);
                           hs = (case handshake_dt of
                                   None \<Rightarrow> last_handshake existing
                                 | Some h \<Rightarrow>
                                     (case last_handshake existing of
                                        None \<Rightarrow> Some h
                                      | Some old \<Rightarrow> if h > old then Some h else Some old))
                       in AList.update ep
                            (existing\<lparr>rx_bytes := rx, tx_bytes := tx, rx_delta := rxd,
                               tx_delta := txd, last_seen := seen, last_handshake := hs\<rparr>) ss
                   | None \<Rightarrow>
                       ss @ [(ep, \<lparr>endpoint = ep, first_seen = now, last_seen = now,
                                   last_handshake = handshake_dt, rx_bytes = rx, tx_bytes = tx,
                                   rx_delta = 0, tx_delta = 0\<rparr>)])
             else ss)
      in (map snd ss', tr1(key \<mapsto> ss')))"

text \<open>
  \<open>active_sessions\<close>. \<open>list.sort(key=..., reverse=True)\<close> is a stable sort in descending
  order of the key (equal keys keep their order); \<open>sort_key\<close> is a stable insertion sort,
  so sorting by the negated key is the same list.
\<close>

definition active_sessions ::
  "tracker \<Rightarrow> string \<Rightarrow> string \<Rightarrow> PeerLimitSettings \<Rightarrow> datetime \<Rightarrow> PeerSession list \<times> tracker" where
  "active_sessions tr interface peer_id settings now =
     (let ttl_window = now - seconds (max (ttl_seconds settings) 1);
          ss = sessions_of tr (interface, peer_id);
          active = filter (\<lambda>s. last_seen s \<ge> ttl_window) (map snd ss)
      in (sort_key (\<lambda>s. - last_seen s) active, tr))"

text \<open>
  \<open>allowed_sessions\<close>. The local function \<open>append_unique\<close> works on the list \<open>allowed\<close>
  and the set \<open>seen\<close> of its enclosing call, which are threaded through here.
  \<open>s not in grace_sessions\<close> compares sessions field by field (a dataclass).
\<close>

fun append_unique ::
  "PeerSession list \<Rightarrow> PeerSession list \<times> string set \<Rightarrow> PeerSession list \<times> string set" where
  "append_unique [] (allowed, seen) = (allowed, seen)"
| "append_unique (s # items) (allowed, seen) =
     (if endpoint s \<notin> seen
      then append_unique items (allowed @ [s], insert (endpoint s) seen)
      else append_unique items (allowed, seen))"

definition allowed_sessions ::
  "tracker \<Rightarrow> string \<Rightarrow> string \<Rightarrow> PeerLimitSettings \<Rightarrow> datetime \<Rightarrow> PeerSession list \<times> tracker" where
  "allowed_sessions tr interface peer_id settings now =
     (case active_sessions tr interface peer_id settings now of
        (active, tr1) \<Rightarrow>
          (case max_concurrent settings of
             None \<Rightarrow> (active, tr1)
           | Some m \<Rightarrow>
               if m = 0 then (active, tr1)
               else
                 let grace_window = now - seconds (max (grace_seconds settings) 0);
                     grace_sessions = filter (\<lambda>s. first_seen s \<ge> grace_window) active;
                     stable_sessions = filter (\<lambda>s. s \<notin> set grace_sessions) active;
                     acc = append_unique grace_sessions ([], {});
                     stable_allowed = filter (\<lambda>s. s \<notin> set grace_sessions) (fst acc);
                     remaining = max (m - int (length stable_allowed)) 0
                 in if remaining \<le> 0 then (fst acc, tr1)
                    else
                      let ordered =
                            (if policy settings = NEW_WINS then stable_sessions
                             else sort_key first_seen stable_sessions)
                      in (fst (append_unique (take (nat remaining) ordered) acc), tr1)))"

definition prune_peer :: "tracker \<Rightarrow> string \<Rightarrow> string \<Rightarrow> tracker" where
  "prune_peer tr interface peer_id = tr((interface, peer_id) := None)"

text \<open>
  What every tracker built by the code satisfies: a dict has each endpoint once, the
  session stored under an endpoint carries that endpoint, and only endpoints that passed
  the check of \<open>observe\<close> are stored.
\<close>

definition wf_sessions :: "sessions \<Rightarrow> bool" where
  "wf_sessions ss \<longleftrightarrow>
     distinct (map fst ss) \<and>
     (\<forall>(ep, s) \<in> set ss. endpoint s = ep \<and> ep \<noteq> [] \<and> lower ep \<noteq> ''(none)'')"

definition wf_tracker :: "tracker \<Rightarrow> bool" where
  "wf_tracker tr \<longleftrightarrow> (\<forall>key ss. tr key = Some ss \<longrightarrow> wf_sessions ss)"

text \<open>The endpoints that \<open>_expire\<close> deletes from a dict (its list \<open>stale\<close>).\<close>

definition stale_of :: "sessions \<Rightarrow> int \<Rightarrow> datetime \<Rightarrow> string list" where
  "stale_of ss ttl now =
     map fst (filter (\<lambda>(ep, s). last_seen s < now - seconds (max ttl 1)) ss)"


text \<open>
  The daemon calls \<open>observe\<close> once per peer and tick. A sequence of such calls is a list
  of their arguments; \<open>observe_step\<close> is the effect of one call on the tracker, and
  \<open>kept\<close> says that none of the calls drops the session of the given key and endpoint
  when it expires stale sessions, so that the same session lives through all of them.
  \<open>handshake_le\<close> orders optional handshake times, with no handshake first.
\<close>

record observation =
  ob_interface :: string
  ob_peer :: string
  ob_endpoint :: "string option"
  ob_handshake :: "int option"
  ob_rx :: int
  ob_tx :: int
  ob_settings :: PeerLimitSettings
  ob_now :: datetime

definition observe_step :: "tracker \<Rightarrow> observation \<Rightarrow> tracker" where
  "observe_step tr c =
     snd (observe tr (ob_interface c) (ob_peer c) (ob_endpoint c) (ob_handshake c)
            (ob_rx c) (ob_tx c) (ob_settings c) (ob_now c))"

fun kept :: "tracker \<Rightarrow> string \<times> string \<Rightarrow> string \<Rightarrow> observation list \<Rightarrow> bool" where
  "kept tr k e [] = True"
| "kept tr k e (c # cs) =
     (session_of (expire tr (ob_interface c, ob_peer c) (ttl_seconds (ob_settings c)) (ob_now c)) k e \<noteq> None \<and>
      kept (observe_step tr c) k e cs)"

definition handshake_le :: "datetime option \<Rightarrow> datetime option \<Rightarrow> bool" where
  "handshake_le a b =
     (case a of None \<Rightarrow> True | Some x \<Rightarrow> (case b of None \<Rightarrow> False | Some y \<Rightarrow> x \<le> y))"


section \<open>The nftables backend\<close>

text \<open>
  \<open>NftablesBackend\<close> of \<open>peer_limiter_daemon.py\<close>. Every command goes through \<open>_run\<close>,
  which starts \<open>nft\<close> and returns its exit status; the host is a function from the
  commands issued so far and the next command to that status, and the backend keeps the
  list of the commands it has issued. An element of a set is a pair (ip, port). The two
  element commands carry the set of elements they name: \<open>_format_elements\<close> renders it by
  iterating a Python set, whose order is not fixed, so the text of the last argument is
  not modelled. \<open>str(port)\<close> is the decimal text of an integer.
\<close>

type_synonym element = "string \<times> int"

datatype nft_cmd =
    Nft "string list"
  | AddElement string "element set"
  | DeleteElement string "element set"

type_synonym host = "nft_cmd list \<Rightarrow> nft_cmd \<Rightarrow> int"

record FirewallSyncPlan =
  ipv4 :: "element set"
  ipv6 :: "element set"
  port :: int

record NftablesBackend =
  initialized :: "string set"
  current_v4 :: "string \<rightharpoonup> element set"
  current_v6 :: "string \<rightharpoonup> element set"
  issued :: "nft_cmd list"

definition TABLE_NAME :: string where
  "TABLE_NAME = ''wggo_limiter''"

fun digits_of :: "nat \<Rightarrow> string" where
  "digits_of n =
     (if n < 10 then [char_of (48 + n)] else digits_of (n div 10) @ [char_of (48 + n mod 10)])"

declare digits_of.simps [simp del]

definition str_int :: "int \<Rightarrow> string" where
  "str_int n = (if n < 0 then CHR ''-'' # digits_of (nat (- n)) else digits_of (nat n))"

definition nft_run :: "host \<Rightarrow> NftablesBackend \<Rightarrow> nft_cmd \<Rightarrow> int \<times> NftablesBackend" where
  "nft_run h b c = (h (issued b) c, b\<lparr>issued := issued b @ [c]\<rparr>)"

definition set_v4_name :: "string \<Rightarrow> string" where
  "set_v4_name interface = ''wggo_'' @ interface @ ''_allowed_v4''"

definition set_v6_name :: "string \<Rightarrow> string" where
  "set_v6_name interface = ''wggo_'' @ interface @ ''_allowed_v6''"

definition ensure_interface :: "host \<Rightarrow> NftablesBackend \<Rightarrow> string \<Rightarrow> int \<Rightarrow> NftablesBackend" where
  "ensure_interface h b interface port_no =
     (if interface \<in> initialized b then b
      else
        let chain = ''wggo_'' @ interface;
            set_v4 = set_v4_name interface;
            set_v6 = set_v6_name interface;
            r1 = nft_run h b (Nft [''list'', ''set'', ''inet'', TABLE_NAME, set_v4]);
            b2 = (if fst r1 \<noteq> 0
                  then snd (nft_run h (snd r1)
                         (Nft [''add'', ''set'', ''inet'', TABLE_NAME, set_v4, ''{'', ''type'',
                               ''ipv4_addr'', ''.'', ''inet_service;'', ''}'']))
                  else snd r1);
            r3 = nft_run h b2 (Nft [''list'', ''set'', ''inet'', TABLE_NAME, set_v6]);
            b4 = (if fst r3 \<noteq> 0
                  then snd (nft_run h (snd r3)
                         (Nft [''add'', ''set'', ''inet'', TABLE_NAME, set_v6, ''{'', ''type'',
                               ''ipv6_addr'', ''.'', ''inet_service;'', ''}'']))
                  else snd r3);
            r5 = nft_run h b4 (Nft [''list'', ''chain'', ''inet'', TABLE_NAME, chain]);
            b6 = (if fst r5 \<noteq> 0
                  then
                    let c1 = snd (nft_run h (snd r5)
                               (Nft [''add'', ''chain'', ''inet'', TABLE_NAME, chain, ''{'', ''type'',
                                     ''filter'', ''hook'', ''input'', ''priority'', ''-150;'',
                                     ''policy'', ''accept;'', ''}'']));
                        c2 = snd (nft_run h c1
                               (Nft [''add'', ''rule'', ''inet'', TABLE_NAME, chain, ''udp'', ''dport'',
                                     str_int port_no, ''ip'', ''saddr'', ''.'', ''udp'', ''sport'',
                                     ''@'' @ set_v4, ''return'']));
                        c3 = snd (nft_run h c2
                               (Nft [''add'', ''rule'', ''inet'', TABLE_NAME, chain, ''udp'', ''dport'',
                                     str_int port_no, ''ip6'', ''saddr'', ''.'', ''udp'', ''sport'',
                                     ''@'' @ set_v6, ''return'']))
                    in snd (nft_run h c3
                              (Nft [''add'', ''rule'', ''inet'', TABLE_NAME, chain, ''udp'', ''dport'',
                                    str_int port_no, ''drop'']))
                  else snd r5)
        in b6\<lparr>initialized := insert interface (initialized b6)\<rparr>)"

definition sync_set ::
  "host \<Rightarrow> NftablesBackend \<Rightarrow> string \<Rightarrow> element set \<Rightarrow> element set \<Rightarrow>
   element set \<times> NftablesBackend" where
  "sync_set h b set_name desired current =
     (let to_add = desired - current;
          to_remove = current - desired;
          b1 = (if to_add \<noteq> {} then snd (nft_run h b (AddElement set_name to_add)) else b);
          b2 = (if to_remove \<noteq> {} then snd (nft_run h b1 (DeleteElement set_name to_remove))
                else b1)
      in (desired, b2))"

definition current_of :: "(string \<rightharpoonup> element set) \<Rightarrow> string \<Rightarrow> element set" where
  "current_of m interface = (case m interface of None \<Rightarrow> {} | Some c \<Rightarrow> c)"

text \<open>\<open>sync\<close>: the plans are a dict from interface to plan, visited in insertion order.\<close>

fun sync :: "host \<Rightarrow> NftablesBackend \<Rightarrow> (string \<times> FirewallSyncPlan) list \<Rightarrow> NftablesBackend" where
  "sync h b [] = b"
| "sync h b ((interface, plan) # plans) =
     (let b1 = ensure_interface h b interface (port plan);
          r4 = sync_set h b1 (set_v4_name interface) (ipv4 plan)
                 (current_of (current_v4 b1) interface);
          b2 = (snd r4)\<lparr>current_v4 := (current_v4 (snd r4))(interface \<mapsto> fst r4)\<rparr>;
          r6 = sync_set h b2 (set_v6_name interface) (ipv6 plan)
                 (current_of (current_v6 b2) interface);
          b3 = (snd r6)\<lparr>current_v6 := (current_v6 (snd r6))(interface \<mapsto> fst r6)\<rparr>
      in sync h b3 plans)"

text \<open>
  For the statements about \<open>sync\<close>: the commands a call issues, the two element commands
  that bring a set from \<open>current\<close> to \<open>desired\<close>, and the tests for an element command.
\<close>

definition emitted :: "NftablesBackend \<Rightarrow> NftablesBackend \<Rightarrow> nft_cmd list" where
  "emitted b b' = drop (length (issued b)) (issued b')"

definition diff_commands :: "string \<Rightarrow> element set \<Rightarrow> element set \<Rightarrow> nft_cmd list" where
  "diff_commands set_name desired current =
     (if desired - current = {} then [] else [AddElement set_name (desired - current)]) @
     (if current - desired = {} then [] else [DeleteElement set_name (current - desired)])"

fun is_element_cmd :: "nft_cmd \<Rightarrow> bool" where
  "is_element_cmd (Nft args) = False"
| "is_element_cmd (AddElement n els) = True"
| "is_element_cmd (DeleteElement n els) = True"

fun adds_to :: "string \<Rightarrow> nft_cmd \<Rightarrow> bool" where
  "adds_to n (AddElement m els) = (m = n)"
| "adds_to n c = False"

fun deletes_from :: "string \<Rightarrow> nft_cmd \<Rightarrow> bool" where
  "deletes_from n (DeleteElement m els) = (m = n)"
| "deletes_from n c = False"

text \<open>The element commands of one plan, in the order \<open>sync\<close> issues them.\<close>

definition plan_commands :: "NftablesBackend \<Rightarrow> string \<times> FirewallSyncPlan \<Rightarrow> nft_cmd list" where
  "plan_commands b ip =
     diff_commands (set_v4_name (fst ip)) (ipv4 (snd ip)) (current_of (current_v4 b) (fst ip)) @
     diff_commands (set_v6_name (fst ip)) (ipv6 (snd ip)) (current_of (current_v6 b) (fst ip))"

section \<open>The state repository and the daemon's iteration\<close>

text \<open>
  \<open>PeerLimiterStateRepository.upsert_sessions\<close> of \<open>modules/PeerLimiterState.py\<close> deletes
  the rows of (interface, peer) and inserts one row per record, in one transaction. A
  record is the dict that \<open>iteration\<close> builds for an active session; the column
  \<open>UpdatedAt\<close> (the wall clock at the write) is left out.
\<close>

record session_record =
  Endpoint :: string
  LastHandshake :: "datetime option"
  FirstSeen :: datetime
  LastSeen :: datetime
  RxBytes :: int
  TxBytes :: int
  RxDelta :: int
  TxDelta :: int
  IsAllowed :: bool

type_synonym session_row = "string \<times> string \<times> session_record"

definition upsert_sessions ::
  "session_row list \<Rightarrow> string \<Rightarrow> string \<Rightarrow> session_record list \<Rightarrow> session_row list" where
  "upsert_sessions table interface peer_id records =
     filter (\<lambda>(i, p, r). \<not> (i = interface \<and> p = peer_id)) table @
     map (\<lambda>r. (interface, peer_id, r)) records"

text \<open>
  \<open>PeerLimiterDaemon.iteration\<close>. The dump is what the collector returned: per interface
  the listen port and the peers. The plans are local to the call; they are returned with
  the daemon so that statements can speak about what is handed to \<open>backend.sync\<close>. An
  exception of the settings reader leaves the iteration at once, with the daemon as the
  peers before it left it. The backend is the nftables backend or none (fail-open); the
  iptables backend is not modelled.
\<close>

record peer_info =
  public_key :: string
  peer_endpoint :: string
  latest_handshake :: int
  peer_rx_bytes :: int
  peer_tx_bytes :: int

record interface_info =
  listen_port :: int
  peers :: "peer_info list"

record daemon =
  tracker :: tracker
  state_repo :: "session_row list"
  backend :: "NftablesBackend option"
  peers_over_limit :: nat

fun add_sessions ::
  "string set \<Rightarrow> PeerSession list \<Rightarrow> FirewallSyncPlan \<times> session_record list \<Rightarrow>
   FirewallSyncPlan \<times> session_record list" where
  "add_sessions allowed_endpoints [] (plan, records) = (plan, records)"
| "add_sessions allowed_endpoints (session # rest) (plan, records) =
     (let plan' =
            (case split_endpoint (endpoint session) of
               None \<Rightarrow> plan
             | Some (ip, port_no) \<Rightarrow>
                 if CHR '':'' \<in> set ip then plan\<lparr>ipv6 := insert (ip, port_no) (ipv6 plan)\<rparr>
                 else plan\<lparr>ipv4 := insert (ip, port_no) (ipv4 plan)\<rparr>);
          rec = \<lparr>Endpoint = endpoint session, LastHandshake = last_handshake session,
                 FirstSeen = first_seen session, LastSeen = last_seen session,
                 RxBytes = rx_bytes session, TxBytes = tx_bytes session,
                 RxDelta = rx_delta session, TxDelta = tx_delta session,
                 IsAllowed = (endpoint session \<in> allowed_endpoints)\<rparr>
      in add_sessions allowed_endpoints rest (plan', records @ [rec]))"

definition process_peer ::
  "database \<Rightarrow> datetime \<Rightarrow> string \<Rightarrow> peer_info \<Rightarrow> FirewallSyncPlan \<times> nat \<times> daemon \<Rightarrow>
   (error \<times> daemon) + (FirewallSyncPlan \<times> nat \<times> daemon)" where
  "process_peer db now interface info acc =
     (case acc of
        (plan, over_limit_count, d) \<Rightarrow>
          (let peer_id = public_key info
           in case get_peer_settings db interface peer_id of
                Inl e \<Rightarrow> Inl (e, d)
              | Inr settings \<Rightarrow>
                  let tr1 = snd (observe (tracker d) interface peer_id (Some (peer_endpoint info))
                                   (Some (latest_handshake info)) (peer_rx_bytes info)
                                   (peer_tx_bytes info) settings now);
                      a = active_sessions tr1 interface peer_id settings now;
                      al = allowed_sessions (snd a) interface peer_id settings now;
                      allowed_endpoints = endpoint ` set (fst al);
                      over = (case max_concurrent settings of
                                None \<Rightarrow> over_limit_count
                              | Some m \<Rightarrow>
                                  if m \<noteq> 0 \<and> int (length (fst a)) > m
                                  then over_limit_count + 1 else over_limit_count);
                      pr = add_sessions allowed_endpoints (fst a) (plan, [])
                  in Inr (fst pr, over,
                          d\<lparr>tracker := snd al,
                            state_repo :=
                              upsert_sessions (state_repo d) interface peer_id (snd pr)\<rparr>)))"

fun process_peers ::
  "database \<Rightarrow> datetime \<Rightarrow> string \<Rightarrow> peer_info list \<Rightarrow> FirewallSyncPlan \<times> nat \<times> daemon \<Rightarrow>
   (error \<times> daemon) + (FirewallSyncPlan \<times> nat \<times> daemon)" where
  "process_peers db now interface [] acc = Inr acc"
| "process_peers db now interface (info # rest) acc =
     (case process_peer db now interface info acc of
        Inl e \<Rightarrow> Inl e
      | Inr acc' \<Rightarrow> process_peers db now interface rest acc')"

fun process_interfaces ::
  "database \<Rightarrow> datetime \<Rightarrow> (string \<times> interface_info) list \<Rightarrow>
   (string \<times> FirewallSyncPlan) list \<times> nat \<times> daemon \<Rightarrow>
   (error \<times> daemon) + ((string \<times> FirewallSyncPlan) list \<times> nat \<times> daemon)" where
  "process_interfaces db now [] acc = Inr acc"
| "process_interfaces db now ((interface, info) # rest) (plans, over_limit_count, d) =
     (case process_peers db now interface (peers info)
             (\<lparr>ipv4 = {}, ipv6 = {}, port = listen_port info\<rparr>, over_limit_count, d) of
        Inl e \<Rightarrow> Inl e
      | Inr (plan, over, d') \<Rightarrow>
          process_interfaces db now rest (AList.update interface plan plans, over, d'))"

definition iteration ::
  "host \<Rightarrow> database \<Rightarrow> daemon \<Rightarrow> (string \<times> interface_info) list \<Rightarrow> datetime \<Rightarrow>
   (error \<times> daemon) + ((string \<times> FirewallSyncPlan) list \<times> daemon)" where
  "iteration h db d dump now =
     (case process_interfaces db now dump ([], 0, d) of
        Inl e \<Rightarrow> Inl e
      | Inr (plans, over, d') \<Rightarrow>
          Inr (plans,
               d'\<lparr>peers_over_limit := over,
                  backend := (case backend d' of
                                None \<Rightarrow> None
                              | Some b \<Rightarrow> Some (sync h b plans))\<rparr>))"

section \<open>Scenarios\<close>

text \<open>
  The trackers of the repository's tests (\<open>tests/test_peer_limits.py\<close>): one peer on
  \<open>wg0\<close>, seen at 10.0.0.1:50000 at second 1000 and at 10.0.0.2:50001 at second 1005.
\<close>

definition ep_A :: string where
  "ep_A = ''10.0.0.1:50000''"

definition ep_B :: string where
  "ep_B = ''10.0.0.2:50001''"

definition settings_cap1 :: PeerLimitSettings where
  "settings_cap1 =
     \<lparr>max_concurrent = Some 1, policy = NEW_WINS, ttl_seconds = 180, grace_seconds = 0\<rparr>"

definition tracker_A :: tracker where
  "tracker_A =
     snd (observe Map.empty ''wg0'' ''peer'' (Some ep_A) (Some 1000) 100 0 settings_cap1
            (seconds 1000))"

definition tracker_AB :: tracker where
  "tracker_AB =
     snd (observe tracker_A ''wg0'' ''peer'' (Some ep_B) (Some 1005) 200 0 settings_cap1
            (seconds 1005))"

definition session_A :: PeerSession where
  "session_A =
     \<lparr>endpoint = ep_A, first_seen = seconds 1000, last_seen = seconds 1000,
      last_handshake = Some (seconds 1000), rx_bytes = 100, tx_bytes = 0,
      rx_delta = 0, tx_delta = 0\<rparr>"

definition session_B :: PeerSession where
  "session_B =
     \<lparr>endpoint = ep_B, first_seen = seconds 1005, last_seen = seconds 1005,
      last_handshake = Some (seconds 1005), rx_bytes = 200, tx_bytes = 0,
      rx_delta = 0, tx_delta = 0\<rparr>"

text \<open>
  Scenario S5 of the specification (the backend test of the repository): \<open>wg0\<close> is set
  up, its IPv4 set holds 10.0.0.1:1111, and the plan asks for 10.0.0.1:1111 and
  10.0.0.2:2222. The host answers every command with exit status 0.
\<close>

definition host_ok :: host where
  "host_ok = (\<lambda>cs c. 0)"

definition backend_S5 :: NftablesBackend where
  "backend_S5 =
     \<lparr>initialized = {''wg0''},
      current_v4 = [''wg0'' \<mapsto> {(''10.0.0.1'', 1111)}],
      current_v6 = [''wg0'' \<mapsto> {}],
      issued = []\<rparr>"

definition plans_S5 :: "(string \<times> FirewallSyncPlan) list" where
  "plans_S5 =
     [(''wg0'', \<lparr>ipv4 = {(''10.0.0.1'', 1111), (''10.0.0.2'', 2222)}, ipv6 = {}, port = 51820\<rparr>)]"

text \<open>
  A settings database: \<open>peer\<close> has a limit of one session and no grace period, and
  the row of \<open>peer2\<close> names a policy that does not exist.
\<close>

definition limits_db :: database where
  "limits_db =
     [''wg0'' \<mapsto>
        [''peer'' \<mapsto>
           [''max_concurrent'' \<mapsto> PInt 1, ''connection_policy'' \<mapsto> PStr ''new_wins'',
            ''session_ttl'' \<mapsto> PInt 180, ''grace_seconds'' \<mapsto> PInt 0],
         ''peer2'' \<mapsto>
           [''max_concurrent'' \<mapsto> PInt 2, ''connection_policy'' \<mapsto> PStr ''newest_wins'',
            ''session_ttl'' \<mapsto> PInt 60, ''grace_seconds'' \<mapsto> PInt 5]]]"

text \<open>
  A tick of the daemon at second 1006, after the two observations above: the peer is
  still at 10.0.0.2:50001 and has sent more bytes. Both endpoints are in the backend's
  IPv4 set from the ticks before.
\<close>

definition dump_B :: "(string \<times> interface_info) list" where
  "dump_B =
     [(''wg0'', \<lparr>listen_port = 51820,
                 peers = [\<lparr>public_key = ''peer'', peer_endpoint = ep_B, latest_handshake = 1005,
                           peer_rx_bytes = 300, peer_tx_bytes = 0\<rparr>]\<rparr>)]"

definition daemon_AB :: daemon where
  "daemon_AB =
     \<lparr>tracker = tracker_AB, state_repo = [],
      backend = Some \<lparr>initialized = {''wg0''},
                      current_v4 = [''wg0'' \<mapsto> {(''10.0.0.1'', 50000), (''10.0.0.2'', 50001)}],
                      current_v6 = [''wg0'' \<mapsto> {}],
                      issued = []\<rparr>,
      peers_over_limit = 0\<rparr>"

section \<open>The repository's tests on the model\<close>

text \<open>
  The assertions of \<open>tests/test_peer_limits.py\<close>, evaluated on the model (the tests take
  the wall clock for \<open>now\<close>; the scenarios here fix it at second 1005, with the first
  endpoint seen 5 seconds earlier).
\<close>

lemma test_peer_limit_settings_parsing_defaults:
  "from_row Map.empty = Inr default_settings \<and>
   from_row [''max_concurrent'' \<mapsto> PInt 0, ''connection_policy'' \<mapsto> PStr ''old_wins'',
             ''session_ttl'' \<mapsto> PInt 60, ''grace_seconds'' \<mapsto> PInt 10] =
     Inr \<lparr>max_concurrent = None, policy = OLD_WINS, ttl_seconds = 60, grace_seconds = 10\<rparr>"
  by code_simp

lemma test_session_tracker_new_wins_policy:
  "set (map endpoint (fst (allowed_sessions tracker_AB ''wg0'' ''peer'' settings_cap1 (seconds 1005)))) =
     {ep_A, ep_B} \<and>
   map endpoint (fst (allowed_sessions tracker_AB ''wg0'' ''peer'' settings_cap1 (seconds 1006))) =
     [ep_B]"
  by code_simp

lemma test_session_tracker_old_wins_policy:
  "set (map endpoint (fst (allowed_sessions tracker_AB ''wg0'' ''peer''
          (settings_cap1\<lparr>policy := OLD_WINS\<rparr>) (seconds 1005)))) = {ep_A, ep_B} \<and>
   map endpoint (fst (allowed_sessions tracker_AB ''wg0'' ''peer''
          (settings_cap1\<lparr>policy := OLD_WINS\<rparr>) (seconds 1006))) = [ep_A]"
  by code_simp

lemma test_session_tracker_grace_period_allows_both:
  "set (map endpoint (fst (allowed_sessions tracker_AB ''wg0'' ''peer''
          (settings_cap1\<lparr>grace_seconds := 10\<rparr>) (seconds 1010)))) = {ep_A, ep_B} \<and>
   map endpoint (fst (allowed_sessions tracker_AB ''wg0'' ''peer''
          (settings_cap1\<lparr>grace_seconds := 10\<rparr>) (seconds 1016))) = [ep_B]"
  by code_simp

lemma test_session_tracker_ttl_expires_sessions:
  "fst (active_sessions tracker_A ''wg0'' ''peer'' (settings_cap1\<lparr>ttl_seconds := 5\<rparr>) (seconds 1010)) = []"
  by code_simp

lemma test_nftables_backend_diff_operations:
  "emitted backend_S5 (sync host_ok backend_S5 plans_S5) =
     [AddElement ''wggo_wg0_allowed_v4'' {(''10.0.0.2'', 2222)}] \<and>
   emitted (backend_S5\<lparr>current_v4 := [''wg0'' \<mapsto> {(''10.0.0.1'', 1111), (''10.0.0.2'', 2222)}]\<rparr>)
     (sync host_ok (backend_S5\<lparr>current_v4 := [''wg0'' \<mapsto> {(''10.0.0.1'', 1111), (''10.0.0.2'', 2222)}]\<rparr>)
        [(''wg0'', \<lparr>ipv4 = {(''10.0.0.2'', 2222)}, ipv6 = {}, port = 51820\<rparr>)]) =
     [DeleteElement ''wggo_wg0_allowed_v4'' {(''10.0.0.1'', 1111)}]"
  by code_simp

section \<open>Properties of the endpoint parser\<close>

lemma split_first_Some:
  "split_first sep s = Some (h, p) \<longleftrightarrow>
     s \<noteq> [] \<and> s = h @ sep @ p \<and> (\<forall>k<length h. take (length sep) (drop k s) \<noteq> sep)"
proof (induction s arbitrary: h)
  case Nil
  then show ?case by simp
next
  case (Cons c cs)
  show ?case
  proof (cases "take (length sep) (c # cs) = sep")
    case True
    have "h = [] \<and> p = drop (length sep) (c # cs) \<longleftrightarrow>
          c # cs = h @ sep @ p \<and> (\<forall>k<length h. take (length sep) (drop k (c # cs)) \<noteq> sep)"
    proof
      assume "h = [] \<and> p = drop (length sep) (c # cs)"
      then show "c # cs = h @ sep @ p \<and> (\<forall>k<length h. take (length sep) (drop k (c # cs)) \<noteq> sep)"
        using True by (metis append_Nil append_take_drop_id length_0_conv not_less_zero)
    next
      assume a: "c # cs = h @ sep @ p \<and> (\<forall>k<length h. take (length sep) (drop k (c # cs)) \<noteq> sep)"
      have "h = []"
      proof (rule ccontr)
        assume "h \<noteq> []"
        then have "0 < length h" by simp
        with a have "take (length sep) (drop 0 (c # cs)) \<noteq> sep" by blast
        with True show False by simp
      qed
      with a show "h = [] \<and> p = drop (length sep) (c # cs)"
        by (metis append_Nil append_eq_conv_conj)
    qed
    then have "([] = h \<and> drop (length sep) (c # cs) = p) \<longleftrightarrow>
          c # cs = h @ sep @ p \<and> (\<forall>k<length h. take (length sep) (drop k (c # cs)) \<noteq> sep)"
      by (simp add: eq_commute)
    with True show ?thesis by simp
  next
    case False
    show ?thesis
    proof
      assume "split_first sep (c # cs) = Some (h, p)"
      with False obtain h' where s: "split_first sep cs = Some (h', p)" and h: "h = c # h'"
        by (auto split: prod.splits)
      from s Cons.IH[of h'] have cs: "cs = h' @ sep @ p"
        and nf: "\<forall>k<length h'. take (length sep) (drop k cs) \<noteq> sep" by auto
      have "\<forall>k<length h. take (length sep) (drop k (c # cs)) \<noteq> sep"
      proof (intro allI impI)
        fix k assume "k < length h"
        show "take (length sep) (drop k (c # cs)) \<noteq> sep"
        proof (cases k)
          case 0
          with False show ?thesis by simp
        next
          case (Suc j)
          with \<open>k < length h\<close> h nf show ?thesis by simp
        qed
      qed
      with cs h show "c # cs \<noteq> [] \<and> c # cs = h @ sep @ p \<and>
          (\<forall>k<length h. take (length sep) (drop k (c # cs)) \<noteq> sep)" by simp
    next
      assume a: "c # cs \<noteq> [] \<and> c # cs = h @ sep @ p \<and>
          (\<forall>k<length h. take (length sep) (drop k (c # cs)) \<noteq> sep)"
      have "h \<noteq> []"
      proof
        assume "h = []"
        with a have "c # cs = sep @ p" by simp
        then have "take (length sep) (c # cs) = sep" by simp
        with False show False by simp
      qed
      then obtain h' where h: "h = c # h'" using a by (cases h) auto
      with a have cs: "cs = h' @ sep @ p" by simp
      have "\<forall>k<length h'. take (length sep) (drop k cs) \<noteq> sep"
      proof (intro allI impI)
        fix k assume "k < length h'"
        then have "Suc k < length h" using h by simp
        with a have "take (length sep) (drop (Suc k) (c # cs)) \<noteq> sep" by blast
        then show "take (length sep) (drop k cs) \<noteq> sep" by simp
      qed
      moreover from False have "sep \<noteq> []" by auto
      with cs have "cs \<noteq> []" by simp
      ultimately have "split_first sep cs = Some (h', p)"
        using cs Cons.IH[of h'] by simp
      with False h show "split_first sep (c # cs) = Some (h, p)" by simp
    qed
  qed
qed

lemma split_last_colon:
  "split_last '':'' s = Some (h, p) \<longleftrightarrow> s = h @ '':'' @ p \<and> CHR '':'' \<notin> set p"
proof -
  have nth: "(\<forall>k<length a. take (length '':'') (drop k (a @ '':'' @ b)) \<noteq> '':'') \<longleftrightarrow>
             CHR '':'' \<notin> set a" for a b :: string
  proof -
    have "take (length '':'') (drop k (a @ '':'' @ b)) = [a ! k]" if "k < length a" for k
      using that by (simp add: Cons_nth_drop_Suc[symmetric])
    then show ?thesis by (auto simp: in_set_conv_nth)
  qed
  have "split_last '':'' s = Some (h, p) \<longleftrightarrow> split_first '':'' (rev s) = Some (rev p, rev h)"
    by (auto simp: split_last_def split: option.splits)
  also have "\<dots> \<longleftrightarrow> rev s = rev p @ '':'' @ rev h \<and> CHR '':'' \<notin> set p"
    using nth[of "rev p" "rev h"] by (auto simp: split_first_Some)
  also have "rev s = rev p @ '':'' @ rev h \<longleftrightarrow> s = h @ '':'' @ p"
    by (metis append.assoc rev_append rev_rev_ident rev_singleton_conv singleton_rev_conv)
  finally show ?thesis .
qed

text \<open>
  The whitespace of \<open>int\<close> on the model: a port text with a separator U+001C is rejected,
  as \<open>int\<close> raises on it, while U+000B, U+0085 and U+00A0 around the digits are skipped.
\<close>

lemma py_int_whitespace:
  "py_int [CHR 0x1C, CHR ''5''] = None \<and> py_int [CHR ''5'', CHR 0x1F] = None \<and>
   py_int [CHR 0x85, CHR ''5'', CHR 0xA0] = Some 5 \<and>
   split_endpoint (''10.0.0.1:'' @ [CHR 0x1C, CHR ''5'']) = None \<and>
   split_endpoint (''10.0.0.1:'' @ [CHR 0x0B, CHR ''5'']) = Some (''10.0.0.1'', 5)"
  by code_simp

lemma py_int_Nil: "py_int [] = None"
  by (simp add: py_int_def int_strip_def)

text \<open>
  Claim C3, amended. \<open>split_endpoint\<close> returns a host and a port exactly when
  the stripped input is neither empty nor \<open>(none)\<close> in any letter case, the host is not
  empty, and the port text is accepted by \<open>int\<close>, where the stripped input is
  \<open>[host]:port\<close> cut at the first \<open>]:\<close> after the opening bracket when it begins with
  a bracket, and \<open>host:port\<close> cut at the last colon otherwise. In every other case it
  returns \<open>None\<close>. The port is whatever \<open>int\<close> accepts: a sign and zero are accepted.
\<close>

theorem split_endpoint_parses:
  "(split_endpoint e = Some (h, n) \<longleftrightarrow>
      strip e \<noteq> [] \<and> lower (strip e) \<noteq> ''(none)'' \<and> h \<noteq> [] \<and>
      (\<exists>p. py_int p = Some n \<and>
         (if take 1 (strip e) = ''[''
          then drop 1 (strip e) = h @ '']:'' @ p \<and>
               (\<forall>k<length h. take 2 (drop k (drop 1 (strip e))) \<noteq> '']:'')
          else strip e = h @ '':'' @ p \<and> CHR '':'' \<notin> set p))) \<and>
   (strip e = [] \<or> lower (strip e) = ''(none)'' \<longrightarrow> split_endpoint e = None)"
proof -
  define s where "s = strip e"
  have rej: "s = [] \<or> lower s = ''(none)'' \<Longrightarrow> split_endpoint e = None"
    by (auto simp: split_endpoint_def s_def)
  have main: "split_endpoint e = Some (h, n) \<longleftrightarrow>
      s \<noteq> [] \<and> lower s \<noteq> ''(none)'' \<and> h \<noteq> [] \<and>
      (\<exists>p. py_int p = Some n \<and>
         (if take 1 s = ''[''
          then drop 1 s = h @ '']:'' @ p \<and> (\<forall>k<length h. take 2 (drop k (drop 1 s)) \<noteq> '']:'')
          else s = h @ '':'' @ p \<and> CHR '':'' \<notin> set p))"
  proof (cases "s = [] \<or> lower s = ''(none)''")
    case True
    with rej show ?thesis by auto
  next
    case ok: False
    show ?thesis
    proof (cases "take 1 s = ''[''")
      case True
      have len2: "length '']:'' = 2" by simp
      have "split_endpoint e = Some (h, n) \<longleftrightarrow>
            (\<exists>p. split_first '']:'' (drop 1 s) = Some (h, p) \<and> h \<noteq> [] \<and> p \<noteq> [] \<and> py_int p = Some n)"
        using ok True unfolding split_endpoint_def s_def[symmetric] partition_py_def Let_def
        by (auto split: option.splits prod.splits)
      also have "\<dots> \<longleftrightarrow> h \<noteq> [] \<and> (\<exists>p. py_int p = Some n \<and> drop 1 s = h @ '']:'' @ p \<and>
             (\<forall>k<length h. take 2 (drop k (drop 1 s)) \<noteq> '']:''))"
        unfolding split_first_Some len2 using py_int_Nil by auto
      finally show ?thesis using ok True by auto
    next
      case False
      have "split_endpoint e = Some (h, n) \<longleftrightarrow>
            (\<exists>p. split_last '':'' s = Some (h, p) \<and> h \<noteq> [] \<and> p \<noteq> [] \<and> py_int p = Some n)"
        using ok False unfolding split_endpoint_def s_def[symmetric] rpartition_py_def Let_def
        by (auto split: option.splits prod.splits)
      also have "\<dots> \<longleftrightarrow> h \<noteq> [] \<and> (\<exists>p. py_int p = Some n \<and> s = h @ '':'' @ p \<and> CHR '':'' \<notin> set p)"
        unfolding split_last_colon using py_int_Nil by auto
      finally show ?thesis using ok False by auto
    qed
  qed
  from main rej show ?thesis unfolding s_def by blast
qed

theorem split_endpoint_parses_witness:
  "split_endpoint ''[fe80::1]:51820'' = Some (''fe80::1'', 51820) \<and>
   (\<exists>p. py_int p = Some 51820 \<and> drop 1 (strip ''[fe80::1]:51820'') = ''fe80::1'' @ '']:'' @ p)"
proof -
  have ev: "split_endpoint ''[fe80::1]:51820'' = Some (''fe80::1'', 51820)"
    by code_simp
  have br: "take 1 (strip ''[fe80::1]:51820'') = ''[''"
    by code_simp
  from split_endpoint_parses[of "''[fe80::1]:51820''" "''fe80::1''" 51820] ev br
  show ?thesis by auto
qed

text \<open>
  Claim C3 as stated fails: a port that is zero or negative is not rejected.
\<close>

theorem split_endpoint_nonpositive_port:
  "split_endpoint ''10.0.0.1:0'' = Some (''10.0.0.1'', 0) \<and>
   split_endpoint ''10.0.0.1:-5'' = Some (''10.0.0.1'', - 5)"
  by code_simp

section \<open>Properties of the session tracker\<close>

lemma append_unique_mono: "set al \<subseteq> set (fst (append_unique items (al, seen)))"
  by (induction items arbitrary: al seen) (auto, force+)

lemma append_unique_subset:
  "set (fst (append_unique items (al, seen))) \<subseteq> set al \<union> set items"
  by (induction items arbitrary: al seen) (auto, force+)

lemma append_unique_length:
  "length (fst (append_unique items (al, seen))) \<le> length al + length items"
proof (induction items arbitrary: al seen)
  case Nil
  then show ?case by simp
next
  case (Cons s items)
  show ?case
    using Cons.IH[of "al @ [s]" "insert (endpoint s) seen"] Cons.IH[of al seen] by simp
qed

lemma append_unique_distinct:
  "distinct (map endpoint al) \<Longrightarrow> endpoint ` set al \<subseteq> seen \<Longrightarrow>
   distinct (map endpoint (fst (append_unique items (al, seen)))) \<and>
   endpoint ` set (fst (append_unique items (al, seen))) \<subseteq> snd (append_unique items (al, seen))"
proof (induction items arbitrary: al seen)
  case Nil
  then show ?case by simp
next
  case (Cons s items)
  show ?case
  proof (cases "endpoint s \<in> seen")
    case True
    with Cons.IH[of al seen] Cons.prems show ?thesis by simp
  next
    case False
    have "distinct (map endpoint (al @ [s]))" using False Cons.prems by auto
    moreover have "endpoint ` set (al @ [s]) \<subseteq> insert (endpoint s) seen"
      using Cons.prems by auto
    ultimately show ?thesis
      using Cons.IH[of "al @ [s]" "insert (endpoint s) seen"] False by simp
  qed
qed

lemma append_unique_all:
  "distinct (map endpoint items) \<Longrightarrow> endpoint ` set items \<inter> seen = {} \<Longrightarrow>
   fst (append_unique items (al, seen)) = al @ items"
proof (induction items arbitrary: al seen)
  case Nil
  then show ?case by simp
next
  case (Cons s items)
  have "endpoint s \<notin> seen" using Cons.prems by auto
  moreover have "endpoint ` set items \<inter> insert (endpoint s) seen = {}"
    using Cons.prems by auto
  moreover have "distinct (map endpoint items)" using Cons.prems by simp
  ultimately show ?case
    using Cons.IH[of "insert (endpoint s) seen" "al @ [s]"] by simp
qed

lemma active_sessions_fst:
  "fst (active_sessions tr i p st now) =
     sort_key (\<lambda>s. - last_seen s)
       (filter (\<lambda>s. last_seen s \<ge> now - seconds (max (ttl_seconds st) 1))
          (map snd (sessions_of tr (i, p))))"
  by (simp add: active_sessions_def Let_def)

lemma active_sessions_snd: "snd (active_sessions tr i p st now) = tr"
  by (simp add: active_sessions_def Let_def)

lemma wf_sessions_of: "wf_tracker tr \<Longrightarrow> wf_sessions (sessions_of tr key)"
proof (cases "tr key")
  case None
  then show ?thesis by (simp add: sessions_of_def wf_sessions_def)
next
  case (Some ss)
  assume "wf_tracker tr"
  with Some show ?thesis unfolding sessions_of_def wf_tracker_def by (cases key) auto
qed

lemma wf_sessions_endpoints:
  assumes "wf_sessions ss"
  shows "distinct (map endpoint (map snd ss))"
proof -
  have eq: "map endpoint (map snd ss) = map fst ss"
    using assms by (auto simp: wf_sessions_def)
  have "distinct (map fst ss)" using assms by (simp add: wf_sessions_def)
  then show ?thesis by (simp only: eq)
qed

lemma distinct_map_sort_key:
  "distinct (map f (sort_key k xs)) \<longleftrightarrow> distinct (map f xs)"
proof -
  have "mset (map f (sort_key k xs)) = mset (map f xs)" by simp
  then show ?thesis by (metis mset_eq_imp_distinct_iff)
qed

lemma active_sessions_distinct:
  assumes "wf_tracker tr"
  shows "distinct (map endpoint (fst (active_sessions tr i p st now)))"
  using wf_sessions_endpoints[OF wf_sessions_of[OF assms, of "(i, p)"]]
  by (simp add: active_sessions_fst distinct_map_sort_key distinct_map_filter)

text \<open>
  Claim C8, amended. For settings whose \<open>ttl_seconds\<close> is \<open>T\<close>, \<open>active_sessions\<close> returns
  exactly the tracked sessions of the key with \<open>last_seen \<ge> now - max(T, 1)\<close> seconds (a
  TTL below 1 counts as 1), each as often as it is tracked, in descending order of
  \<open>last_seen\<close>, and leaves the tracker as it was.
\<close>

theorem active_sessions_ttl:
  "mset (fst (active_sessions tr i p st now)) =
     mset (filter (\<lambda>s. last_seen s \<ge> now - seconds (max (ttl_seconds st) 1))
             (map snd (sessions_of tr (i, p)))) \<and>
   (\<forall>s \<in> set (fst (active_sessions tr i p st now)).
      \<not> last_seen s < now - seconds (max (ttl_seconds st) 1)) \<and>
   sorted_wrt (\<lambda>a b. last_seen a \<ge> last_seen b) (fst (active_sessions tr i p st now)) \<and>
   snd (active_sessions tr i p st now) = tr"
proof -
  have "sorted (map (\<lambda>s. - last_seen s) (fst (active_sessions tr i p st now)))"
    unfolding active_sessions_fst by (rule sorted_sort_key)
  then have "sorted_wrt (\<lambda>a b. last_seen a \<ge> last_seen b) (fst (active_sessions tr i p st now))"
    by (simp add: sorted_map)
  moreover have "\<forall>s \<in> set (fst (active_sessions tr i p st now)).
            \<not> last_seen s < now - seconds (max (ttl_seconds st) 1)"
    by (auto simp: active_sessions_fst)
  ultimately show ?thesis
    by (simp add: active_sessions_fst active_sessions_snd)
qed

lemma allowed_sessions_snd: "snd (allowed_sessions tr i p st now) = tr"
  by (simp add: allowed_sessions_def active_sessions_def Let_def split: option.splits)

lemma allowed_sessions_subset:
  "set (fst (allowed_sessions tr i p st now)) \<subseteq> set (fst (active_sessions tr i p st now))"
proof -
  obtain active tr1 where a: "active_sessions tr i p st now = (active, tr1)"
    by (cases "active_sessions tr i p st now")
  define g where "g = filter (\<lambda>s. first_seen s \<ge> now - seconds (max (grace_seconds st) 0)) active"
  have g: "set (fst (append_unique g ([], {}))) \<subseteq> set active"
    using append_unique_subset[of g "[]" "{}"] by (auto simp: g_def)
  have "set (fst (append_unique (take n xs) (append_unique g ([], {})))) \<subseteq> set active"
    if "set xs \<subseteq> set active" for n xs
  proof -
    obtain al seen where e: "append_unique g ([], {}) = (al, seen)"
      by (cases "append_unique g ([], {})")
    have "set (fst (append_unique (take n xs) (al, seen))) \<subseteq> set al \<union> set (take n xs)"
      by (rule append_unique_subset)
    moreover have "set al \<subseteq> set active" using g e by simp
    moreover have "set (take n xs) \<subseteq> set active" using that set_take_subset by fastforce
    ultimately show ?thesis using e by auto
  qed
  note t = this
  show ?thesis
    unfolding allowed_sessions_def a
    using g t[of "filter (\<lambda>s. s \<notin> set g) active"]
      t[of "sort_key first_seen (filter (\<lambda>s. s \<notin> set g) active)"]
    by (auto simp: Let_def g_def[symmetric] split: option.splits)
qed

lemma allowed_sessions_distinct:
  assumes "wf_tracker tr"
  shows "distinct (map endpoint (fst (allowed_sessions tr i p st now)))"
proof -
  obtain active tr1 where a: "active_sessions tr i p st now = (active, tr1)"
    by (cases "active_sessions tr i p st now")
  have da: "distinct (map endpoint active)"
    using active_sessions_distinct[OF assms, of i p st now] a by simp
  define g where "g = filter (\<lambda>s. first_seen s \<ge> now - seconds (max (grace_seconds st) 0)) active"
  obtain al seen where e: "append_unique g ([], {}) = (al, seen)"
    by (cases "append_unique g ([], {})")
  have d1: "distinct (map endpoint al) \<and> endpoint ` set al \<subseteq> seen"
    using append_unique_distinct[of "[]" "{}" g] e by simp
  then have d2: "distinct (map endpoint (fst (append_unique xs (al, seen))))" for xs
    using append_unique_distinct[of al seen xs] by simp
  show ?thesis
    unfolding allowed_sessions_def a
    using da d1 d2 e by (auto simp: Let_def g_def[symmetric] split: option.splits)
qed

text \<open>
  Claim C10. For every tracker the code can build, every session returned by
  \<open>allowed_sessions\<close> is returned by \<open>active_sessions\<close> for the same arguments, the
  endpoints of the returned sessions are pairwise distinct, and the tracker is left as
  it was.
\<close>
theorem allowed_sessions_sound:
  assumes "wf_tracker tr"
  shows "set (fst (allowed_sessions tr i p st now)) \<subseteq> set (fst (active_sessions tr i p st now)) \<and>
         distinct (map endpoint (fst (allowed_sessions tr i p st now))) \<and>
         snd (allowed_sessions tr i p st now) = tr"
  using allowed_sessions_subset allowed_sessions_distinct[OF assms] allowed_sessions_snd
  by blast

text \<open>
  Claim C4, amended. For a limit \<open>M \<ge> 1\<close> and \<open>grace_seconds = 0\<close>, the list returned by
  \<open>allowed_sessions\<close> has at most \<open>M\<close> sessions when every active session was first seen
  strictly before \<open>now\<close>.
\<close>
theorem allowed_sessions_cap:
  assumes "max_concurrent st = Some M" and "0 < M" and "grace_seconds st = 0"
    and "\<forall>s \<in> set (fst (active_sessions tr i p st now)). first_seen s < now"
  shows "int (length (fst (allowed_sessions tr i p st now))) \<le> M"
proof -
  obtain active tr1 where a: "active_sessions tr i p st now = (active, tr1)"
    by (cases "active_sessions tr i p st now")
  have g: "filter (\<lambda>s. first_seen s \<ge> now - seconds (max (grace_seconds st) 0)) active = []"
    using assms(3,4) a by (auto simp: seconds_def filter_empty_conv)
  have "length (fst (append_unique (take (nat M) xs) ([], {}))) \<le> nat M" for xs
    using append_unique_length[of "take (nat M) xs" "[]" "{}"] by simp
  then have "int (length (fst (append_unique (take (nat M) xs) ([], {})))) \<le> M" for xs
    using assms(2) by (metis int_nat_eq less_le_not_le nat_int_comparison(3) nat_le_iff)
  then show ?thesis
    unfolding allowed_sessions_def a using assms(1,2) g
    by (simp add: Let_def)
qed

text \<open>
  Claim C5, amended. In every tracker the code can build, an active session (one that
  \<open>active_sessions\<close> returns for the same arguments) with
  \<open>first_seen \<ge> now - grace_seconds\<close> is in the list returned by \<open>allowed_sessions\<close>,
  whatever the limit and the other sessions are.
\<close>
theorem grace_admissible:
  assumes "wf_tracker tr"
    and "s \<in> set (fst (active_sessions tr i p st now))"
    and "first_seen s \<ge> now - seconds (grace_seconds st)"
  shows "s \<in> set (fst (allowed_sessions tr i p st now))"
proof -
  obtain active tr1 where a: "active_sessions tr i p st now = (active, tr1)"
    by (cases "active_sessions tr i p st now")
  have da: "distinct (map endpoint active)"
    using active_sessions_distinct[OF assms(1), of i p st now] a by simp
  define g where "g = filter (\<lambda>s. first_seen s \<ge> now - seconds (max (grace_seconds st) 0)) active"
  have "seconds (grace_seconds st) \<le> seconds (max (grace_seconds st) 0)"
    by (simp add: seconds_def)
  with assms(2,3) a have sg: "s \<in> set g" by (auto simp: g_def)
  have "distinct (map endpoint g)" using da by (simp add: g_def distinct_map_filter)
  then have fg: "fst (append_unique g ([], {})) = g"
    using append_unique_all[of g "{}" "[]"] by simp
  obtain al seen where e: "append_unique g ([], {}) = (al, seen)"
    by (cases "append_unique g ([], {})")
  with fg have al: "al = g" by simp
  have "s \<in> set (fst (append_unique xs (al, seen)))" for xs
    using append_unique_mono[of al xs seen] sg al by auto
  then show ?thesis
    unfolding allowed_sessions_def a
    using sg fg e al assms(2) a by (auto simp: Let_def g_def[symmetric] split: option.splits)
qed

lemma fold_delete_filter:
  "fold AList.delete ks xs = filter (\<lambda>p. fst p \<notin> set ks) xs"
proof (induction ks arbitrary: xs)
  case Nil
  then show ?case by simp
next
  case (Cons k ks)
  have "AList.delete k xs = filter (\<lambda>p. fst p \<noteq> k) xs"
    by (auto simp: AList.delete_eq intro: filter_cong)
  then show ?case using Cons.IH[of "AList.delete k xs"]
    by (auto intro: filter_cong)
qed

lemma expire_sessions_of:
  "sessions_of (expire tr key ttl now) key =
     filter (\<lambda>p. fst p \<notin> set (stale_of (sessions_of tr key) ttl now)) (sessions_of tr key)"
  by (auto simp: expire_def sessions_of_def stale_of_def Let_def fold_delete_filter
      split: option.splits)

lemma expire_other: "k \<noteq> key \<Longrightarrow> expire tr key ttl now k = tr k"
  by (auto simp: expire_def Let_def split: option.splits)

lemma map_of_filter_keys:
  "map_of (filter (\<lambda>p. fst p \<notin> S) ss) e = (if e \<in> S then None else map_of ss e)"
  by (induction ss) auto

lemma session_of_expire:
  "session_of (expire tr key ttl now) k e =
     (if k = key \<and> e \<in> set (stale_of (sessions_of tr key) ttl now) then None
      else session_of tr k e)"
proof (cases "k = key")
  case True
  then show ?thesis
    by (simp add: session_of_def expire_sessions_of map_of_filter_keys)
next
  case False
  then show ?thesis by (simp add: session_of_def sessions_of_def expire_other)
qed

lemma stale_of_wf:
  assumes "distinct (map fst ss)" and "map_of ss e = Some s"
  shows "e \<in> set (stale_of ss ttl now) \<longleftrightarrow> last_seen s < now - seconds (max ttl 1)"
proof -
  have "(e, s') \<in> set ss \<longleftrightarrow> s' = s" for s'
    using assms by (metis map_of_SomeD map_of_is_SomeI option.inject)
  then show ?thesis by (force simp: stale_of_def)
qed

lemma observe_other:
  "k \<noteq> (i, p) \<Longrightarrow> session_of (snd (observe tr i p ep0 hs rx tx st now)) k e = session_of tr k e"
  by (simp add: observe_def Let_def session_of_def sessions_of_def expire_other)

lemma observe_invalid:
  assumes "ep = strip (case ep0 of None \<Rightarrow> [] | Some e \<Rightarrow> e)"
    and "\<not> (ep \<noteq> [] \<and> lower ep \<noteq> ''(none)'')"
  shows "sessions_of (snd (observe tr i p ep0 hs rx tx st now)) (i, p) =
         sessions_of (expire tr (i, p) (ttl_seconds st) now) (i, p)"
  using assms by (auto simp: observe_def Let_def sessions_of_def)

lemma observe_new:
  assumes "ep = strip (case ep0 of None \<Rightarrow> [] | Some e \<Rightarrow> e)"
    and "ep \<noteq> []" and "lower ep \<noteq> ''(none)''"
    and "session_of (expire tr (i, p) (ttl_seconds st) now) (i, p) ep = None"
  shows "sessions_of (snd (observe tr i p ep0 hs rx tx st now)) (i, p) =
         sessions_of (expire tr (i, p) (ttl_seconds st) now) (i, p) @
           [(ep, \<lparr>endpoint = ep, first_seen = now, last_seen = now,
                  last_handshake =
                    (case hs of None \<Rightarrow> None | Some h \<Rightarrow> if h = 0 then None else Some (seconds h)),
                  rx_bytes = rx, tx_bytes = tx, rx_delta = 0, tx_delta = 0\<rparr>)]"
  using assms by (simp add: observe_def Let_def sessions_of_def session_of_def)

lemma observe_update:
  assumes "ep = strip (case ep0 of None \<Rightarrow> [] | Some e \<Rightarrow> e)"
    and "ep \<noteq> []" and "lower ep \<noteq> ''(none)''"
    and "session_of (expire tr (i, p) (ttl_seconds st) now) (i, p) ep = Some existing"
  shows "sessions_of (snd (observe tr i p ep0 hs rx tx st now)) (i, p) =
         AList.update ep
           (existing\<lparr>rx_bytes := rx, tx_bytes := tx,
              rx_delta := max 0 (rx - rx_bytes existing),
              tx_delta := max 0 (tx - tx_bytes existing),
              last_seen :=
                (if max 0 (rx - rx_bytes existing) \<noteq> 0 \<or> max 0 (tx - tx_bytes existing) \<noteq> 0
                 then now else last_seen existing),
              last_handshake :=
                (case (case hs of None \<Rightarrow> None | Some h \<Rightarrow> if h = 0 then None else Some (seconds h)) of
                   None \<Rightarrow> last_handshake existing
                 | Some h \<Rightarrow>
                     (case last_handshake existing of
                        None \<Rightarrow> Some h
                      | Some old \<Rightarrow> if h > old then Some h else Some old))\<rparr>)
           (sessions_of (expire tr (i, p) (ttl_seconds st) now) (i, p))"
  using assms by (simp add: observe_def Let_def sessions_of_def session_of_def)

lemma observe_fst:
  "fst (observe tr i p ep0 hs rx tx st now) =
     map snd (sessions_of (snd (observe tr i p ep0 hs rx tx st now)) (i, p))"
  by (simp add: observe_def Let_def sessions_of_def)

lemma handshake_le_refl: "handshake_le a a"
  by (simp add: handshake_le_def split: option.splits)

lemma handshake_le_trans: "handshake_le a b \<Longrightarrow> handshake_le b c \<Longrightarrow> handshake_le a c"
  by (auto simp: handshake_le_def split: option.splits)

lemma wf_trackerD: "wf_tracker tr \<Longrightarrow> tr k = Some ss \<Longrightarrow> wf_sessions ss"
  unfolding wf_tracker_def by blast

lemma wf_sessions_filter: "wf_sessions ss \<Longrightarrow> wf_sessions (filter P ss)"
  by (auto simp: wf_sessions_def distinct_map_filter)

lemma expire_key:
  "expire tr key ttl now key = Some ss \<Longrightarrow> ss = sessions_of (expire tr key ttl now) key"
  by (simp add: sessions_of_def)

lemma wf_expire:
  assumes "wf_tracker tr"
  shows "wf_tracker (expire tr key ttl now)"
  unfolding wf_tracker_def
proof (intro allI impI)
  fix k ss
  assume a: "expire tr key ttl now k = Some ss"
  show "wf_sessions ss"
  proof (cases "k = key")
    case True
    with a have "ss = sessions_of (expire tr key ttl now) key" by (simp add: sessions_of_def)
    then show ?thesis
      using wf_sessions_filter[OF wf_sessions_of[OF assms, of key]]
      by (simp add: expire_sessions_of)
  next
    case False
    with a have "tr k = Some ss" by (simp add: expire_other)
    with assms show ?thesis by (rule wf_trackerD)
  qed
qed

lemma set_update_subset: "set (AList.update k v xs) \<subseteq> insert (k, v) (set xs)"
  by (induction xs) auto

lemma wf_sessions_update:
  assumes "wf_sessions ss" and "endpoint v = k" and "k \<noteq> []" and "lower k \<noteq> ''(none)''"
  shows "wf_sessions (AList.update k v ss)"
  using assms set_update_subset[of k v ss]
  unfolding wf_sessions_def by (auto simp: distinct_update)

lemma wf_sessions_append:
  assumes "wf_sessions ss" and "endpoint v = k" and "k \<noteq> []" and "lower k \<noteq> ''(none)''"
    and "map_of ss k = None"
  shows "wf_sessions (ss @ [(k, v)])"
  using assms unfolding wf_sessions_def by (auto simp: map_of_eq_None_iff)

lemma wf_sessions_lookup:
  "wf_sessions ss \<Longrightarrow> map_of ss e = Some s \<Longrightarrow> endpoint s = e \<and> e \<noteq> [] \<and> lower e \<noteq> ''(none)''"
  unfolding wf_sessions_def by (auto dest: map_of_SomeD)

lemma observe_key:
  "snd (observe tr i p ep0 hs rx tx st now) (i, p) =
     Some (sessions_of (snd (observe tr i p ep0 hs rx tx st now)) (i, p))"
  by (simp add: observe_def Let_def sessions_of_def)

lemma observe_other_key:
  "k \<noteq> (i, p) \<Longrightarrow> snd (observe tr i p ep0 hs rx tx st now) k = tr k"
  by (simp add: observe_def Let_def expire_other)

lemma wf_observe:
  assumes "wf_tracker tr"
  shows "wf_tracker (snd (observe tr i p ep0 hs rx tx st now))"
  unfolding wf_tracker_def
proof (intro allI impI)
  fix k ss
  assume a: "snd (observe tr i p ep0 hs rx tx st now) k = Some ss"
  define ep where "ep = strip (case ep0 of None \<Rightarrow> [] | Some e \<Rightarrow> e)"
  define ss0 where "ss0 = sessions_of (expire tr (i, p) (ttl_seconds st) now) (i, p)"
  have wf0: "wf_sessions ss0"
    unfolding ss0_def by (rule wf_sessions_of[OF wf_expire[OF assms]])
  show "wf_sessions ss"
  proof (cases "k = (i, p)")
    case False
    with a have "tr k = Some ss" by (simp add: observe_other_key)
    with assms show ?thesis by (rule wf_trackerD)
  next
    case True
    with a have ss: "ss = sessions_of (snd (observe tr i p ep0 hs rx tx st now)) (i, p)"
      by (simp add: observe_key)
    show ?thesis
    proof (cases "ep \<noteq> [] \<and> lower ep \<noteq> ''(none)''")
      case False
      then show ?thesis using wf0 ss observe_invalid[OF ep_def, of tr i p hs rx tx st now]
        by (simp add: ss0_def)
    next
      case valid: True
      show ?thesis
      proof (cases "session_of (expire tr (i, p) (ttl_seconds st) now) (i, p) ep")
        case None
        then have "map_of ss0 ep = None" by (simp add: session_of_def ss0_def)
        then show ?thesis
          using observe_new[OF ep_def _ _ None, of hs rx tx] valid wf0 ss
          by (simp add: ss0_def[symmetric] wf_sessions_append)
      next
        case (Some existing)
        then have "map_of ss0 ep = Some existing" by (simp add: session_of_def ss0_def)
        then have "endpoint existing = ep" using wf_sessions_lookup[OF wf0] by simp
        then show ?thesis
          using observe_update[OF ep_def _ _ Some, of hs rx tx] valid wf0 ss
          by (simp add: ss0_def[symmetric] wf_sessions_update)
      qed
    qed
  qed
qed

lemma wf_empty: "wf_tracker Map.empty"
  by (simp add: wf_tracker_def)

lemma session_survives:
  assumes "wf_tracker tr" and "session_of tr key e = Some s"
    and "now - seconds (max ttl 1) \<le> last_seen s"
  shows "session_of (expire tr key ttl now) key e = Some s"
proof -
  have "distinct (map fst (sessions_of tr key))"
    using wf_sessions_of[OF assms(1), of key] by (simp add: wf_sessions_def)
  then have "e \<notin> set (stale_of (sessions_of tr key) ttl now)"
    using stale_of_wf[of "sessions_of tr key" e s ttl now] assms(2,3)
    by (simp add: session_of_def)
  with assms(2) show ?thesis by (simp add: session_of_expire)
qed

text \<open>
  Claim C6, amended. When \<open>observe\<close> is called for an endpoint that has a session under
  the key, and that session is not expired at \<open>now\<close>
  (\<open>last_seen \<ge> now - max(ttl_seconds, 1)\<close> seconds), the deltas are
  \<open>max(0, new counter - previous counter)\<close> and so never negative, the stored counters are
  the new values, \<open>last_seen\<close> is \<open>now\<close> when a delta is nonzero and the previous
  \<open>last_seen\<close> otherwise, and \<open>first_seen\<close> and the endpoint are kept.
\<close>
theorem observe_existing_session:
  assumes "wf_tracker tr"
    and "session_of tr (i, p) (strip ep) = Some old"
    and "now - seconds (max (ttl_seconds st) 1) \<le> last_seen old"
  shows "\<exists>new. session_of (snd (observe tr i p (Some ep) hs rx tx st now)) (i, p) (strip ep) = Some new \<and>
           rx_delta new = max 0 (rx - rx_bytes old) \<and>
           tx_delta new = max 0 (tx - tx_bytes old) \<and>
           0 \<le> rx_delta new \<and> 0 \<le> tx_delta new \<and>
           rx_bytes new = rx \<and> tx_bytes new = tx \<and>
           last_seen new = (if rx_delta new \<noteq> 0 \<or> tx_delta new \<noteq> 0 then now else last_seen old) \<and>
           first_seen new = first_seen old \<and> endpoint new = endpoint old"
proof -
  have ex: "session_of (expire tr (i, p) (ttl_seconds st) now) (i, p) (strip ep) = Some old"
    by (rule session_survives[OF assms])
  have "map_of (sessions_of tr (i, p)) (strip ep) = Some old"
    using assms(2) by (simp add: session_of_def)
  then have valid: "strip ep \<noteq> []" "lower (strip ep) \<noteq> ''(none)''"
    using wf_sessions_lookup[OF wf_sessions_of[OF assms(1), of "(i, p)"]] by auto
  have e: "strip ep = strip (case Some ep of None \<Rightarrow> [] | Some e \<Rightarrow> e)" by simp
  show ?thesis
    unfolding session_of_def[of "snd (observe tr i p (Some ep) hs rx tx st now)"]
      observe_update[OF e valid ex]
    by (simp add: update_conv')
qed

lemma observe_handshake_step:
  assumes "session_of tr k e = Some s"
    and "session_of (expire tr (i, p) (ttl_seconds st) now) k e \<noteq> None"
  shows "\<exists>s'. session_of (snd (observe tr i p ep0 hs rx tx st now)) k e = Some s' \<and>
           first_seen s' = first_seen s \<and>
           last_handshake s' =
             (case hs of
                None \<Rightarrow> last_handshake s
              | Some h \<Rightarrow>
                  if k = (i, p) \<and> strip (case ep0 of None \<Rightarrow> [] | Some x \<Rightarrow> x) = e \<and>
                     e \<noteq> [] \<and> lower e \<noteq> ''(none)'' \<and> h \<noteq> 0 \<and>
                     (case last_handshake s of None \<Rightarrow> True | Some old \<Rightarrow> old < seconds h)
                  then Some (seconds h) else last_handshake s)"
proof (cases "k = (i, p)")
  case False
  then show ?thesis using assms(1) by (simp add: observe_other split: option.splits)
next
  case True
  define ep where "ep = strip (case ep0 of None \<Rightarrow> [] | Some x \<Rightarrow> x)"
  define ss0 where "ss0 = sessions_of (expire tr (i, p) (ttl_seconds st) now) (i, p)"
  have ex: "session_of (expire tr (i, p) (ttl_seconds st) now) (i, p) e = Some s"
    using assms True by (simp add: session_of_expire split: if_splits)
  then have m0: "map_of ss0 e = Some s" by (simp add: session_of_def ss0_def)
  show ?thesis
  proof (cases "ep \<noteq> [] \<and> lower ep \<noteq> ''(none)''")
    case False
    then show ?thesis
      using ex True observe_invalid[OF ep_def, of tr i p hs rx tx st now]
      by (auto simp: session_of_def ep_def[symmetric] split: option.splits)
  next
    case valid: True
    show ?thesis
    proof (cases "ep = e")
      case same: True
      have "session_of (expire tr (i, p) (ttl_seconds st) now) (i, p) ep = Some s"
        using ex same by simp
      from observe_update[OF ep_def _ _ this, of hs rx tx] valid
      show ?thesis
        unfolding session_of_def True
        by (auto simp: update_conv' same ep_def[symmetric] split: option.splits)
    next
      case other: False
      show ?thesis
      proof (cases "session_of (expire tr (i, p) (ttl_seconds st) now) (i, p) ep")
        case None
        from observe_new[OF ep_def _ _ None, of hs rx tx] valid m0 other
        show ?thesis
          unfolding session_of_def True
          by (auto simp: ss0_def[symmetric] ep_def[symmetric] split: option.splits)
      next
        case (Some existing)
        from observe_update[OF ep_def _ _ Some, of hs rx tx] valid m0 other
        show ?thesis
          unfolding session_of_def True
          by (auto simp: update_conv' ss0_def[symmetric] ep_def[symmetric] split: option.splits)
      qed
    qed
  qed
qed

lemma observe_handshake_le:
  assumes "session_of tr k e = Some s"
    and "session_of (expire tr (i, p) (ttl_seconds st) now) k e \<noteq> None"
  shows "\<exists>s'. session_of (snd (observe tr i p ep0 hs rx tx st now)) k e = Some s' \<and>
           handshake_le (last_handshake s) (last_handshake s')"
proof -
  from observe_handshake_step[OF assms, of ep0 hs rx tx]
  obtain s' where s': "session_of (snd (observe tr i p ep0 hs rx tx st now)) k e = Some s'"
    and r: "last_handshake s' =
             (case hs of
                None \<Rightarrow> last_handshake s
              | Some h \<Rightarrow>
                  if k = (i, p) \<and> strip (case ep0 of None \<Rightarrow> [] | Some x \<Rightarrow> x) = e \<and>
                     e \<noteq> [] \<and> lower e \<noteq> ''(none)'' \<and> h \<noteq> 0 \<and>
                     (case last_handshake s of None \<Rightarrow> True | Some old \<Rightarrow> old < seconds h)
                  then Some (seconds h) else last_handshake s)"
    by blast
  have "handshake_le (last_handshake s) (last_handshake s')"
    unfolding r by (auto simp: handshake_le_def split: option.splits)
  with s' show ?thesis by blast
qed

lemma kept_handshake_le:
  "session_of tr k e = Some s \<Longrightarrow> kept tr k e cs \<Longrightarrow>
   \<exists>s'. session_of (foldl observe_step tr cs) k e = Some s' \<and>
        handshake_le (last_handshake s) (last_handshake s')"
proof (induction cs arbitrary: tr s)
  case Nil
  then show ?case by (simp add: handshake_le_refl)
next
  case (Cons c cs)
  from Cons.prems(2) have
    alive: "session_of (expire tr (ob_interface c, ob_peer c) (ttl_seconds (ob_settings c)) (ob_now c)) k e \<noteq> None"
    and rest: "kept (observe_step tr c) k e cs" by simp_all
  from observe_handshake_le[OF Cons.prems(1) alive]
  obtain s1 where s1: "session_of (observe_step tr c) k e = Some s1"
    and le1: "handshake_le (last_handshake s) (last_handshake s1)"
    unfolding observe_step_def by blast
  from Cons.IH[OF s1 rest] obtain s' where
    "session_of (foldl observe_step (observe_step tr c) cs) k e = Some s'"
    and "handshake_le (last_handshake s1) (last_handshake s')" by blast
  with le1 show ?case using handshake_le_trans by auto
qed

text \<open>
  Claim C7, amended. A call of \<open>observe\<close> that does not drop a session as expired leaves
  its \<open>last_handshake\<close> as it was, unless the call is for the session's key and endpoint
  with a nonzero handshake time that is later than the stored one (or nothing is
  stored), in which case that time is stored. Hence over any sequence of \<open>observe\<close>
  calls none of which drops the session as expired, its \<open>last_handshake\<close> never moves to
  an earlier value.
\<close>

theorem last_handshake_monotone:
  "(session_of tr k e = Some s \<and>
    session_of (expire tr (i, p) (ttl_seconds st) now) k e \<noteq> None \<longrightarrow>
      (\<exists>s'. session_of (snd (observe tr i p ep0 hs rx tx st now)) k e = Some s' \<and>
            last_handshake s' =
              (case hs of
                 None \<Rightarrow> last_handshake s
               | Some h \<Rightarrow>
                   if k = (i, p) \<and> strip (case ep0 of None \<Rightarrow> [] | Some x \<Rightarrow> x) = e \<and>
                      e \<noteq> [] \<and> lower e \<noteq> ''(none)'' \<and> h \<noteq> 0 \<and>
                      (case last_handshake s of None \<Rightarrow> True | Some old \<Rightarrow> old < seconds h)
                   then Some (seconds h) else last_handshake s))) \<and>
   (session_of tr k e = Some s \<and> kept tr k e cs \<longrightarrow>
      (\<exists>s'. session_of (foldl observe_step tr cs) k e = Some s' \<and>
            handshake_le (last_handshake s) (last_handshake s')))"
proof (intro conjI impI)
  assume a: "session_of tr k e = Some s \<and>
    session_of (expire tr (i, p) (ttl_seconds st) now) k e \<noteq> None"
  from observe_handshake_step[of tr k e s i p st now ep0 hs rx tx] a
  show "\<exists>s'. session_of (snd (observe tr i p ep0 hs rx tx st now)) k e = Some s' \<and>
            last_handshake s' =
              (case hs of
                 None \<Rightarrow> last_handshake s
               | Some h \<Rightarrow>
                   if k = (i, p) \<and> strip (case ep0 of None \<Rightarrow> [] | Some x \<Rightarrow> x) = e \<and>
                      e \<noteq> [] \<and> lower e \<noteq> ''(none)'' \<and> h \<noteq> 0 \<and>
                      (case last_handshake s of None \<Rightarrow> True | Some old \<Rightarrow> old < seconds h)
                   then Some (seconds h) else last_handshake s)"
    by blast
next
  assume "session_of tr k e = Some s \<and> kept tr k e cs"
  then show "\<exists>s'. session_of (foldl observe_step tr cs) k e = Some s' \<and>
            handshake_le (last_handshake s) (last_handshake s')"
    using kept_handshake_le by blast
qed

section \<open>The tracker claims on the scenarios\<close>

lemma wf_tracker_A: "wf_tracker tracker_A"
  unfolding tracker_A_def by (intro wf_observe wf_empty)

lemma wf_tracker_AB: "wf_tracker tracker_AB"
  unfolding tracker_AB_def by (intro wf_observe wf_tracker_A)

lemma tracker_A_session: "session_of tracker_A (''wg0'', ''peer'') ep_A = Some session_A"
  by code_simp

lemma strip_ep_A: "strip ep_A = ep_A"
  by code_simp

theorem active_sessions_ttl_witness:
  "fst (active_sessions tracker_A ''wg0'' ''peer'' (settings_cap1\<lparr>ttl_seconds := 5\<rparr>) (seconds 1003)) = [session_A] \<and>
   fst (active_sessions tracker_A ''wg0'' ''peer'' (settings_cap1\<lparr>ttl_seconds := 5\<rparr>) (seconds 1010)) = []"
proof -
  let ?st = "settings_cap1\<lparr>ttl_seconds := 5\<rparr>"
  have f1: "filter (\<lambda>s. last_seen s \<ge> seconds 1003 - seconds (max (ttl_seconds ?st) 1))
              (map snd (sessions_of tracker_A (''wg0'', ''peer''))) = [session_A]"
    by code_simp
  have f2: "filter (\<lambda>s. last_seen s \<ge> seconds 1010 - seconds (max (ttl_seconds ?st) 1))
              (map snd (sessions_of tracker_A (''wg0'', ''peer''))) = []"
    by code_simp
  from active_sessions_ttl[of tracker_A "''wg0''" "''peer''" ?st "seconds 1003"]
  have "mset (fst (active_sessions tracker_A ''wg0'' ''peer'' ?st (seconds 1003))) =
        mset (filter (\<lambda>s. last_seen s \<ge> seconds 1003 - seconds (max (ttl_seconds ?st) 1))
              (map snd (sessions_of tracker_A (''wg0'', ''peer''))))"
    by (rule conjunct1)
  then have "mset (fst (active_sessions tracker_A ''wg0'' ''peer'' ?st (seconds 1003))) = mset [session_A]"
    unfolding f1 .
  then have a1: "fst (active_sessions tracker_A ''wg0'' ''peer'' ?st (seconds 1003)) = [session_A]"
    by simp
  from active_sessions_ttl[of tracker_A "''wg0''" "''peer''" ?st "seconds 1010"]
  have "mset (fst (active_sessions tracker_A ''wg0'' ''peer'' ?st (seconds 1010))) =
        mset (filter (\<lambda>s. last_seen s \<ge> seconds 1010 - seconds (max (ttl_seconds ?st) 1))
              (map snd (sessions_of tracker_A (''wg0'', ''peer''))))"
    by (rule conjunct1)
  then have "mset (fst (active_sessions tracker_A ''wg0'' ''peer'' ?st (seconds 1010))) = mset []"
    unfolding f2 .
  then have a2: "fst (active_sessions tracker_A ''wg0'' ''peer'' ?st (seconds 1010)) = []"
    by simp
  from a1 a2 show ?thesis by blast
qed

text \<open>
  Claim C8 as stated fails: with \<open>ttl_seconds = 0\<close> the code uses a TTL of 1 second, and
  a session last seen one second before \<open>now\<close>, which is older than \<open>now - T\<close>, is
  returned.
\<close>

theorem active_sessions_ttl_counterexample:
  "ttl_seconds (settings_cap1\<lparr>ttl_seconds := 0\<rparr>) = 0 \<and>
   fst (active_sessions tracker_A ''wg0'' ''peer'' (settings_cap1\<lparr>ttl_seconds := 0\<rparr>) (seconds 1001)) =
     [session_A] \<and>
   last_seen session_A < seconds 1001 - seconds (ttl_seconds (settings_cap1\<lparr>ttl_seconds := 0\<rparr>))"
  by code_simp

theorem allowed_sessions_sound_witness:
  "wf_tracker tracker_AB \<and>
   set (fst (allowed_sessions tracker_AB ''wg0'' ''peer'' settings_cap1 (seconds 1006)))
     \<subseteq> set (fst (active_sessions tracker_AB ''wg0'' ''peer'' settings_cap1 (seconds 1006))) \<and>
   distinct (map endpoint (fst (allowed_sessions tracker_AB ''wg0'' ''peer'' settings_cap1 (seconds 1006)))) \<and>
   snd (allowed_sessions tracker_AB ''wg0'' ''peer'' settings_cap1 (seconds 1006)) = tracker_AB"
  using allowed_sessions_sound[OF wf_tracker_AB, of "''wg0''" "''peer''" settings_cap1 "seconds 1006"]
    wf_tracker_AB by blast

theorem allowed_sessions_cap_witness:
  "max_concurrent settings_cap1 = Some 1 \<and> grace_seconds settings_cap1 = 0 \<and>
   length (fst (active_sessions tracker_AB ''wg0'' ''peer'' settings_cap1 (seconds 1006))) = 2 \<and>
   int (length (fst (allowed_sessions tracker_AB ''wg0'' ''peer'' settings_cap1 (seconds 1006)))) \<le> 1"
proof -
  have m: "max_concurrent settings_cap1 = Some 1" by (simp add: settings_cap1_def)
  have g: "grace_seconds settings_cap1 = 0" by (simp add: settings_cap1_def)
  have b: "\<forall>s \<in> set (fst (active_sessions tracker_AB ''wg0'' ''peer'' settings_cap1 (seconds 1006))).
             first_seen s < seconds 1006"
    by code_simp
  have n: "length (fst (active_sessions tracker_AB ''wg0'' ''peer'' settings_cap1 (seconds 1006))) = 2"
    by code_simp
  from allowed_sessions_cap[OF m _ g b] m g n show ?thesis by simp
qed

text \<open>
  Claim C4 as stated fails: a session first seen exactly at \<open>now\<close> is inside the grace
  window even when \<open>grace_seconds\<close> is 0, and two sessions are allowed under a limit of 1
  (the repository's own test expects both).
\<close>

theorem allowed_sessions_cap_counterexample:
  "max_concurrent settings_cap1 = Some 1 \<and> grace_seconds settings_cap1 = 0 \<and>
   map endpoint (fst (allowed_sessions tracker_AB ''wg0'' ''peer'' settings_cap1 (seconds 1005))) =
     [ep_B, ep_A] \<and>
   \<not> int (length (fst (allowed_sessions tracker_AB ''wg0'' ''peer'' settings_cap1 (seconds 1005)))) \<le> 1"
  by code_simp

theorem grace_admissible_witness:
  "wf_tracker tracker_AB \<and>
   session_B \<in> set (fst (active_sessions tracker_AB ''wg0'' ''peer'' (settings_cap1\<lparr>grace_seconds := 10\<rparr>) (seconds 1010))) \<and>
   seconds 1010 - seconds (grace_seconds (settings_cap1\<lparr>grace_seconds := 10\<rparr>)) \<le> first_seen session_B \<and>
   session_B \<in> set (fst (allowed_sessions tracker_AB ''wg0'' ''peer'' (settings_cap1\<lparr>grace_seconds := 10\<rparr>) (seconds 1010)))"
proof -
  let ?st = "settings_cap1\<lparr>grace_seconds := 10\<rparr>"
  have a: "session_B \<in> set (fst (active_sessions tracker_AB ''wg0'' ''peer'' ?st (seconds 1010)))"
    by code_simp
  have f: "seconds 1010 - seconds (grace_seconds ?st) \<le> first_seen session_B"
    by code_simp
  from grace_admissible[OF wf_tracker_AB a f] wf_tracker_AB a f show ?thesis by blast
qed

text \<open>
  Claim C5 as stated fails: with a grace window longer than the TTL, a tracked session
  can be inside the grace window and expired, and then it is not allowed.
\<close>

theorem grace_admissible_counterexample:
  "session_of tracker_A (''wg0'', ''peer'') ep_A = Some session_A \<and>
   seconds 1003 - seconds (grace_seconds (settings_cap1\<lparr>ttl_seconds := 1, grace_seconds := 5\<rparr>))
     \<le> first_seen session_A \<and>
   fst (allowed_sessions tracker_A ''wg0'' ''peer''
          (settings_cap1\<lparr>ttl_seconds := 1, grace_seconds := 5\<rparr>) (seconds 1003)) = []"
  by code_simp

theorem observe_existing_session_witness:
  "\<exists>new. session_of (snd (observe tracker_A ''wg0'' ''peer'' (Some ep_A) (Some 1000) 10 0 settings_cap1 (seconds 1001)))
            (''wg0'', ''peer'') ep_A = Some new \<and>
         rx_delta new = 0 \<and> rx_bytes new = 10 \<and> last_seen new = seconds 1000"
proof -
  have s: "session_of tracker_A (''wg0'', ''peer'') (strip ep_A) = Some session_A"
    by code_simp
  have l: "seconds 1001 - seconds (max (ttl_seconds settings_cap1) 1) \<le> last_seen session_A"
    by code_simp
  from observe_existing_session[OF wf_tracker_A s l, of "Some 1000" 10 0]
  show ?thesis by (auto simp: strip_ep_A session_A_def)
qed

text \<open>
  Claim C6 as stated fails: a session that is stale at \<open>now\<close> is dropped before the
  endpoint is looked up and a new one is created. Its \<open>rx_delta\<close> is 0 although the
  counter grew by 900, and with unchanged counters \<open>last_seen\<close> is \<open>now\<close> although both
  deltas are 0.
\<close>

theorem observe_stale_session_counterexample:
  "session_of tracker_A (''wg0'', ''peer'') ep_A = Some session_A \<and>
   session_of (snd (observe tracker_A ''wg0'' ''peer'' (Some ep_A) (Some 1000) 1000 0 settings_cap1 (seconds 1200)))
     (''wg0'', ''peer'') ep_A =
     Some \<lparr>endpoint = ep_A, first_seen = seconds 1200, last_seen = seconds 1200,
           last_handshake = Some (seconds 1000), rx_bytes = 1000, tx_bytes = 0,
           rx_delta = 0, tx_delta = 0\<rparr> \<and>
   max 0 (1000 - rx_bytes session_A) = 900 \<and>
   session_of (snd (observe tracker_A ''wg0'' ''peer'' (Some ep_A) (Some 1000) 100 0 settings_cap1 (seconds 1200)))
     (''wg0'', ''peer'') ep_A =
     Some \<lparr>endpoint = ep_A, first_seen = seconds 1200, last_seen = seconds 1200,
           last_handshake = Some (seconds 1000), rx_bytes = 100, tx_bytes = 0,
           rx_delta = 0, tx_delta = 0\<rparr>"
  by code_simp

theorem last_handshake_monotone_witness:
  "(\<exists>s'. session_of (snd (observe tracker_A ''wg0'' ''peer'' (Some ep_A) (Some 1001) 100 0 settings_cap1 (seconds 1001)))
            (''wg0'', ''peer'') ep_A = Some s' \<and> last_handshake s' = Some (seconds 1001)) \<and>
   (\<exists>s'. session_of
            (foldl observe_step tracker_A
               [\<lparr>ob_interface = ''wg0'', ob_peer = ''peer'', ob_endpoint = Some ep_A,
                  ob_handshake = Some 999, ob_rx = 100, ob_tx = 0,
                  ob_settings = settings_cap1, ob_now = seconds 1001\<rparr>,
                \<lparr>ob_interface = ''wg0'', ob_peer = ''peer'', ob_endpoint = Some ep_A,
                  ob_handshake = Some 0, ob_rx = 100, ob_tx = 0,
                  ob_settings = settings_cap1, ob_now = seconds 1002\<rparr>])
            (''wg0'', ''peer'') ep_A = Some s' \<and>
          handshake_le (Some (seconds 1000)) (last_handshake s'))"
proof -
  let ?cs = "[\<lparr>ob_interface = ''wg0'', ob_peer = ''peer'', ob_endpoint = Some ep_A,
                  ob_handshake = Some 999, ob_rx = 100, ob_tx = 0,
                  ob_settings = settings_cap1, ob_now = seconds 1001\<rparr>,
                \<lparr>ob_interface = ''wg0'', ob_peer = ''peer'', ob_endpoint = Some ep_A,
                  ob_handshake = Some 0, ob_rx = 100, ob_tx = 0,
                  ob_settings = settings_cap1, ob_now = seconds 1002\<rparr>]"
  have s: "session_of tracker_A (''wg0'', ''peer'') ep_A = Some session_A"
    by code_simp
  have e: "session_of (expire tracker_A (''wg0'', ''peer'') (ttl_seconds settings_cap1) (seconds 1001))
             (''wg0'', ''peer'') ep_A \<noteq> None"
    by code_simp
  have k: "kept tracker_A (''wg0'', ''peer'') ep_A ?cs"
    by code_simp
  have c: "(case Some (1001::int) of
                 None \<Rightarrow> last_handshake session_A
               | Some h \<Rightarrow>
                   if (''wg0'', ''peer'') = (''wg0'', ''peer'') \<and> strip (case Some ep_A of None \<Rightarrow> [] | Some x \<Rightarrow> x) = ep_A \<and>
                      ep_A \<noteq> [] \<and> lower ep_A \<noteq> ''(none)'' \<and> h \<noteq> 0 \<and>
                      (case last_handshake session_A of None \<Rightarrow> True | Some old \<Rightarrow> old < seconds h)
                   then Some (seconds h) else last_handshake session_A) = Some (seconds 1001)"
    by code_simp
  have h: "last_handshake session_A = Some (seconds 1000)" by (simp add: session_A_def)
  note t = last_handshake_monotone[of tracker_A "(''wg0'', ''peer'')" ep_A session_A "''wg0''" "''peer''"
      settings_cap1 "seconds 1001" "Some ep_A" "Some 1001" 100 0 ?cs]
  from t s e have "\<exists>s'. session_of (snd (observe tracker_A ''wg0'' ''peer'' (Some ep_A) (Some 1001) 100 0 settings_cap1 (seconds 1001)))
            (''wg0'', ''peer'') ep_A = Some s' \<and> last_handshake s' =
             (case Some (1001::int) of
                 None \<Rightarrow> last_handshake session_A
               | Some h \<Rightarrow>
                   if (''wg0'', ''peer'') = (''wg0'', ''peer'') \<and> strip (case Some ep_A of None \<Rightarrow> [] | Some x \<Rightarrow> x) = ep_A \<and>
                      ep_A \<noteq> [] \<and> lower ep_A \<noteq> ''(none)'' \<and> h \<noteq> 0 \<and>
                      (case last_handshake session_A of None \<Rightarrow> True | Some old \<Rightarrow> old < seconds h)
                   then Some (seconds h) else last_handshake session_A)"
    by blast
  then have one: "\<exists>s'. session_of (snd (observe tracker_A ''wg0'' ''peer'' (Some ep_A) (Some 1001) 100 0 settings_cap1 (seconds 1001)))
            (''wg0'', ''peer'') ep_A = Some s' \<and> last_handshake s' = Some (seconds 1001)"
    unfolding c .
  from t s k have "\<exists>s'. session_of (foldl observe_step tracker_A ?cs) (''wg0'', ''peer'') ep_A = Some s' \<and>
          handshake_le (last_handshake session_A) (last_handshake s')"
    by blast
  then have two: "\<exists>s'. session_of (foldl observe_step tracker_A ?cs) (''wg0'', ''peer'') ep_A = Some s' \<and>
          handshake_le (Some (seconds 1000)) (last_handshake s')"
    unfolding h .
  from one two show ?thesis by blast
qed

text \<open>
  Claim C7 as stated fails: a call of \<open>observe\<close> at which the session is stale drops it
  and creates a new one under the same key and endpoint with the observed handshake,
  without comparing: the stored handshake goes from second 1000 back to second 999.
\<close>

theorem last_handshake_recreated_counterexample:
  "session_of tracker_A (''wg0'', ''peer'') ep_A = Some session_A \<and>
   last_handshake session_A = Some (seconds 1000) \<and>
   session_of (snd (observe tracker_A ''wg0'' ''peer'' (Some ep_A) (Some 999) 100 0 settings_cap1 (seconds 1200)))
     (''wg0'', ''peer'') ep_A =
     Some \<lparr>endpoint = ep_A, first_seen = seconds 1200, last_seen = seconds 1200,
           last_handshake = Some (seconds 999), rx_bytes = 100, tx_bytes = 0,
           rx_delta = 0, tx_delta = 0\<rparr>"
  by code_simp

section \<open>Properties of the nftables backend\<close>

lemma nft_run_fields:
  "issued (snd (nft_run h b c)) = issued b @ [c]"
  "current_v4 (snd (nft_run h b c)) = current_v4 b"
  "current_v6 (snd (nft_run h b c)) = current_v6 b"
  "initialized (snd (nft_run h b c)) = initialized b"
  by (simp_all add: nft_run_def)

lemma ensure_interface_fields:
  "\<exists>cs. issued (ensure_interface h b i n) = issued b @ cs \<and> filter is_element_cmd cs = []"
  "current_v4 (ensure_interface h b i n) = current_v4 b"
  "current_v6 (ensure_interface h b i n) = current_v6 b"
  "initialized (ensure_interface h b i n) = insert i (initialized b)"
  by (auto simp: ensure_interface_def Let_def nft_run_fields)

lemma ensure_interface_done: "i \<in> initialized b \<Longrightarrow> ensure_interface h b i n = b"
  by (simp add: ensure_interface_def)

lemma sync_set_fields:
  "issued (snd (sync_set h b n d c)) = issued b @ diff_commands n d c"
  "current_v4 (snd (sync_set h b n d c)) = current_v4 b"
  "current_v6 (snd (sync_set h b n d c)) = current_v6 b"
  "initialized (snd (sync_set h b n d c)) = initialized b"
  "fst (sync_set h b n d c) = d"
  by (simp_all add: sync_set_def Let_def nft_run_fields diff_commands_def)

lemma sync_set_same: "sync_set h b n d d = (d, b)"
  by (simp add: sync_set_def)

lemma filter_diff_commands: "filter is_element_cmd (diff_commands n d c) = diff_commands n d c"
  by (simp add: diff_commands_def)

lemma sync_effect:
  "distinct (map fst plans) \<Longrightarrow>
   (\<exists>cs. issued (sync h b plans) = issued b @ cs \<and>
         filter is_element_cmd cs = concat (map (plan_commands b) plans)) \<and>
   (\<forall>i. current_v4 (sync h b plans) i =
          (case map_of plans i of None \<Rightarrow> current_v4 b i | Some pl \<Rightarrow> Some (ipv4 pl))) \<and>
   (\<forall>i. current_v6 (sync h b plans) i =
          (case map_of plans i of None \<Rightarrow> current_v6 b i | Some pl \<Rightarrow> Some (ipv6 pl))) \<and>
   initialized (sync h b plans) = initialized b \<union> fst ` set plans"
proof (induction plans arbitrary: b)
  case Nil
  then show ?case by simp
next
  case (Cons ip plans)
  obtain i pl where ip: "ip = (i, pl)" by (cases ip)
  define b1 where "b1 = ensure_interface h b i (port pl)"
  define r4 where "r4 = sync_set h b1 (set_v4_name i) (ipv4 pl) (current_of (current_v4 b1) i)"
  define b2 where "b2 = (snd r4)\<lparr>current_v4 := (current_v4 (snd r4))(i \<mapsto> fst r4)\<rparr>"
  define r6 where "r6 = sync_set h b2 (set_v6_name i) (ipv6 pl) (current_of (current_v6 b2) i)"
  define b3 where "b3 = (snd r6)\<lparr>current_v6 := (current_v6 (snd r6))(i \<mapsto> fst r6)\<rparr>"
  have step: "sync h b (ip # plans) = sync h b3 plans"
    by (simp add: ip b1_def r4_def b2_def r6_def b3_def Let_def)
  from ensure_interface_fields(1)[of h b i "port pl"] obtain cs1 where
    cs1: "issued b1 = issued b @ cs1" "filter is_element_cmd cs1 = []"
    unfolding b1_def by blast
  have c4: "current_v4 b1 = current_v4 b" and c6: "current_v6 b1 = current_v6 b"
    and i1: "initialized b1 = insert i (initialized b)"
    by (simp_all add: b1_def ensure_interface_fields)
  have iss3: "issued b3 = issued b @ cs1 @ plan_commands b ip"
    by (simp add: b3_def r6_def b2_def r4_def sync_set_fields cs1 c4 c6 plan_commands_def ip)
  have v4: "current_v4 b3 = (current_v4 b)(i \<mapsto> ipv4 pl)"
    by (simp add: b3_def r6_def b2_def r4_def sync_set_fields c4)
  have v6: "current_v6 b3 = (current_v6 b)(i \<mapsto> ipv6 pl)"
    by (simp add: b3_def r6_def b2_def r4_def sync_set_fields c6)
  have in3: "initialized b3 = insert i (initialized b)"
    by (simp add: b3_def r6_def b2_def r4_def sync_set_fields i1)
  from Cons.prems have d: "distinct (map fst plans)" and ni: "i \<notin> fst ` set plans"
    by (auto simp: ip)
  have same: "map (plan_commands b3) plans = map (plan_commands b) plans"
  proof (rule map_cong[OF refl])
    fix x assume "x \<in> set plans"
    with ni have "fst x \<noteq> i" by auto
    then show "plan_commands b3 x = plan_commands b x"
      by (simp add: plan_commands_def v4 v6 current_of_def)
  qed
  from Cons.IH[OF d, of b3] obtain cs where
    cs: "issued (sync h b3 plans) = issued b3 @ cs"
      "filter is_element_cmd cs = concat (map (plan_commands b3) plans)"
    and w4: "\<forall>j. current_v4 (sync h b3 plans) j =
          (case map_of plans j of None \<Rightarrow> current_v4 b3 j | Some pl \<Rightarrow> Some (ipv4 pl))"
    and w6: "\<forall>j. current_v6 (sync h b3 plans) j =
          (case map_of plans j of None \<Rightarrow> current_v6 b3 j | Some pl \<Rightarrow> Some (ipv6 pl))"
    and wi: "initialized (sync h b3 plans) = initialized b3 \<union> fst ` set plans"
    by blast
  have m: "map_of plans i = None" using ni by (simp add: map_of_eq_None_iff)
  have 1: "\<exists>cs'. issued (sync h b (ip # plans)) = issued b @ cs' \<and>
         filter is_element_cmd cs' = concat (map (plan_commands b) (ip # plans))"
  proof (intro exI conjI)
    show "issued (sync h b (ip # plans)) = issued b @ (cs1 @ plan_commands b ip @ cs)"
      unfolding step by (simp add: cs iss3)
    show "filter is_element_cmd (cs1 @ plan_commands b ip @ cs) =
          concat (map (plan_commands b) (ip # plans))"
      by (simp add: cs1 cs same plan_commands_def filter_diff_commands)
  qed
  have 2: "\<forall>j. current_v4 (sync h b (ip # plans)) j =
          (case map_of (ip # plans) j of None \<Rightarrow> current_v4 b j | Some pl \<Rightarrow> Some (ipv4 pl))"
    unfolding step using w4 m by (auto simp: v4 ip simp del: sync.simps split: option.splits)
  have 3: "\<forall>j. current_v6 (sync h b (ip # plans)) j =
          (case map_of (ip # plans) j of None \<Rightarrow> current_v6 b j | Some pl \<Rightarrow> Some (ipv6 pl))"
    unfolding step using w6 m by (auto simp: v6 ip simp del: sync.simps split: option.splits)
  have 4: "initialized (sync h b (ip # plans)) = initialized b \<union> fst ` set (ip # plans)"
    unfolding step using wi by (auto simp: in3 ip simp del: sync.simps)
  from 1 2 3 4 show ?case by blast
qed

lemma sync_settled:
  "(\<forall>ip \<in> set plans. fst ip \<in> initialized b \<and> current_v4 b (fst ip) = Some (ipv4 (snd ip)) \<and>
       current_v6 b (fst ip) = Some (ipv6 (snd ip))) \<Longrightarrow>
   sync h b plans = b"
proof (induction plans)
  case Nil
  then show ?case by simp
next
  case (Cons ip plans)
  obtain i pl where ip: "ip = (i, pl)" by (cases ip)
  from Cons.prems have a: "i \<in> initialized b" "current_v4 b i = Some (ipv4 pl)"
    "current_v6 b i = Some (ipv6 pl)" by (auto simp: ip)
  have "sync h b (ip # plans) = sync h b plans"
    using a by (simp add: ip ensure_interface_done current_of_def sync_set_same Let_def map_upd_triv)
  with Cons show ?case by simp
qed

lemma sync_twice:
  assumes "distinct (map fst plans)"
  shows "sync h (sync h b plans) plans = sync h b plans"
proof (rule sync_settled, intro ballI)
  fix ip assume m: "ip \<in> set plans"
  have mo: "map_of plans (fst ip) = Some (snd ip)"
    using assms m by (simp add: map_of_eq_Some_iff)
  from sync_effect[OF assms, of h b] mo m
  show "fst ip \<in> initialized (sync h b plans) \<and>
        current_v4 (sync h b plans) (fst ip) = Some (ipv4 (snd ip)) \<and>
        current_v6 (sync h b plans) (fst ip) = Some (ipv6 (snd ip))"
    by auto
qed

lemma v4_name_inj: "set_v4_name i = set_v4_name j \<longleftrightarrow> i = j"
  by (simp add: set_v4_name_def)

lemma v6_name_inj: "set_v6_name i = set_v6_name j \<longleftrightarrow> i = j"
  by (simp add: set_v6_name_def)

lemma v4_v6_names: "set_v4_name i \<noteq> set_v6_name j"
proof
  assume "set_v4_name i = set_v6_name j"
  then have "last (set_v4_name i) = last (set_v6_name j)" by simp
  then show False by (simp add: set_v4_name_def set_v6_name_def)
qed

lemma adds_diff:
  "filter (adds_to n) (diff_commands m d c) =
     (if m = n \<and> d - c \<noteq> {} then [AddElement m (d - c)] else [])"
  by (simp add: diff_commands_def)

lemma deletes_diff:
  "filter (deletes_from n) (diff_commands m d c) =
     (if m = n \<and> c - d \<noteq> {} then [DeleteElement m (c - d)] else [])"
  by (simp add: diff_commands_def)

lemma adds_to_element: "adds_to n c \<Longrightarrow> is_element_cmd c"
  by (cases c) auto

lemma deletes_from_element: "deletes_from n c \<Longrightarrow> is_element_cmd c"
  by (cases c) auto

lemma filter_element_first:
  "(\<And>c. P c \<Longrightarrow> is_element_cmd c) \<Longrightarrow> filter P (filter is_element_cmd cs) = filter P cs"
  by (induction cs) auto


lemma plan_adds:
  "filter (adds_to n) (plan_commands b (j, pl)) =
     (if n = set_v4_name j \<and> ipv4 pl - current_of (current_v4 b) j \<noteq> {}
      then [AddElement n (ipv4 pl - current_of (current_v4 b) j)]
      else if n = set_v6_name j \<and> ipv6 pl - current_of (current_v6 b) j \<noteq> {}
      then [AddElement n (ipv6 pl - current_of (current_v6 b) j)]
      else [])"
  using v4_v6_names[of j j] by (auto simp: plan_commands_def adds_diff)

lemma plan_deletes:
  "filter (deletes_from n) (plan_commands b (j, pl)) =
     (if n = set_v4_name j \<and> current_of (current_v4 b) j - ipv4 pl \<noteq> {}
      then [DeleteElement n (current_of (current_v4 b) j - ipv4 pl)]
      else if n = set_v6_name j \<and> current_of (current_v6 b) j - ipv6 pl \<noteq> {}
      then [DeleteElement n (current_of (current_v6 b) j - ipv6 pl)]
      else [])"
  using v4_v6_names[of j j] by (auto simp: plan_commands_def deletes_diff)

lemma other_plans_adds:
  assumes "i \<notin> fst ` set plans" and "n = set_v4_name i \<or> n = set_v6_name i"
  shows "filter (adds_to n) (concat (map (plan_commands b) plans)) = []"
  using assms(1)
proof (induction plans)
  case Nil
  then show ?case by simp
next
  case (Cons jp plans)
  obtain j pl where jp: "jp = (j, pl)" by (cases jp)
  with Cons.prems have "j \<noteq> i" by auto
  then have "filter (adds_to n) (plan_commands b (j, pl)) = []"
    using assms(2) v4_v6_names[of i j] v4_v6_names[of j i]
    by (auto simp: plan_adds v4_name_inj v6_name_inj)
  with Cons show ?case by (simp add: jp)
qed

lemma other_plans_deletes:
  assumes "i \<notin> fst ` set plans" and "n = set_v4_name i \<or> n = set_v6_name i"
  shows "filter (deletes_from n) (concat (map (plan_commands b) plans)) = []"
  using assms(1)
proof (induction plans)
  case Nil
  then show ?case by simp
next
  case (Cons jp plans)
  obtain j pl where jp: "jp = (j, pl)" by (cases jp)
  with Cons.prems have "j \<noteq> i" by auto
  then have "filter (deletes_from n) (plan_commands b (j, pl)) = []"
    using assms(2) v4_v6_names[of i j] v4_v6_names[of j i]
    by (auto simp: plan_deletes v4_name_inj v6_name_inj)
  with Cons show ?case by (simp add: jp)
qed

lemma own_plan_adds:
  assumes "distinct (map fst plans)" and "(i, pl) \<in> set plans"
    and "n = set_v4_name i \<or> n = set_v6_name i"
  shows "filter (adds_to n) (concat (map (plan_commands b) plans)) =
         filter (adds_to n) (plan_commands b (i, pl))"
  using assms(1,2)
proof (induction plans)
  case Nil
  then show ?case by simp
next
  case (Cons jp plans)
  obtain j pl' where jp: "jp = (j, pl')" by (cases jp)
  show ?case
  proof (cases "jp = (i, pl)")
    case True
    with Cons.prems have "i \<notin> fst ` set plans" by auto
    from other_plans_adds[OF this assms(3)] True show ?thesis by simp
  next
    case False
    with Cons.prems have in_rest: "(i, pl) \<in> set plans" and "j \<noteq> i"
      by (auto simp: jp rev_image_eqI)
    then have "filter (adds_to n) (plan_commands b (j, pl')) = []"
      using assms(3) v4_v6_names[of i j] v4_v6_names[of j i]
      by (auto simp: plan_adds v4_name_inj v6_name_inj)
    with Cons.IH in_rest Cons.prems show ?thesis by (simp add: jp)
  qed
qed

lemma own_plan_deletes:
  assumes "distinct (map fst plans)" and "(i, pl) \<in> set plans"
    and "n = set_v4_name i \<or> n = set_v6_name i"
  shows "filter (deletes_from n) (concat (map (plan_commands b) plans)) =
         filter (deletes_from n) (plan_commands b (i, pl))"
  using assms(1,2)
proof (induction plans)
  case Nil
  then show ?case by simp
next
  case (Cons jp plans)
  obtain j pl' where jp: "jp = (j, pl')" by (cases jp)
  show ?case
  proof (cases "jp = (i, pl)")
    case True
    with Cons.prems have "i \<notin> fst ` set plans" by auto
    from other_plans_deletes[OF this assms(3)] True show ?thesis by simp
  next
    case False
    with Cons.prems have in_rest: "(i, pl) \<in> set plans" and "j \<noteq> i"
      by (auto simp: jp rev_image_eqI)
    then have "filter (deletes_from n) (plan_commands b (j, pl')) = []"
      using assms(3) v4_v6_names[of i j] v4_v6_names[of j i]
      by (auto simp: plan_deletes v4_name_inj v6_name_inj)
    with Cons.IH in_rest Cons.prems show ?thesis by (simp add: jp)
  qed
qed

lemma adds_at_most_one:
  assumes "distinct (map fst plans)"
  shows "length (filter (adds_to n) (concat (map (plan_commands b) plans))) \<le> 1"
  using assms
proof (induction plans)
  case Nil
  then show ?case by simp
next
  case (Cons jp plans)
  obtain j pl where jp: "jp = (j, pl)" by (cases jp)
  from Cons.prems have nj: "j \<notin> fst ` set plans" and d: "distinct (map fst plans)"
    by (auto simp: jp)
  show ?case
  proof (cases "n = set_v4_name j \<or> n = set_v6_name j")
    case True
    from other_plans_adds[OF nj True] show ?thesis by (simp add: jp plan_adds)
  next
    case False
    then have "filter (adds_to n) (plan_commands b (j, pl)) = []" by (auto simp: plan_adds)
    with Cons.IH[OF d] show ?thesis by (simp add: jp)
  qed
qed

lemma deletes_at_most_one:
  assumes "distinct (map fst plans)"
  shows "length (filter (deletes_from n) (concat (map (plan_commands b) plans))) \<le> 1"
  using assms
proof (induction plans)
  case Nil
  then show ?case by simp
next
  case (Cons jp plans)
  obtain j pl where jp: "jp = (j, pl)" by (cases jp)
  from Cons.prems have nj: "j \<notin> fst ` set plans" and d: "distinct (map fst plans)"
    by (auto simp: jp)
  show ?case
  proof (cases "n = set_v4_name j \<or> n = set_v6_name j")
    case True
    from other_plans_deletes[OF nj True] show ?thesis by (simp add: jp plan_deletes)
  next
    case False
    then have "filter (deletes_from n) (plan_commands b (j, pl)) = []" by (auto simp: plan_deletes)
    with Cons.IH[OF d] show ?thesis by (simp add: jp)
  qed
qed

lemma emitted_sync:
  assumes "distinct (map fst plans)"
  shows "filter is_element_cmd (emitted b (sync h b plans)) = concat (map (plan_commands b) plans)"
proof -
  from sync_effect[OF assms, of h b] obtain cs where
    "issued (sync h b plans) = issued b @ cs"
    "filter is_element_cmd cs = concat (map (plan_commands b) plans)" by blast
  then show ?thesis by (simp add: emitted_def)
qed

lemma emitted_adds:
  assumes "distinct (map fst plans)"
  shows "filter (adds_to n) (emitted b (sync h b plans)) =
         filter (adds_to n) (concat (map (plan_commands b) plans))"
  using filter_element_first[of "adds_to n" "emitted b (sync h b plans)"] adds_to_element
  by (simp add: emitted_sync[OF assms])

lemma emitted_deletes:
  assumes "distinct (map fst plans)"
  shows "filter (deletes_from n) (emitted b (sync h b plans)) =
         filter (deletes_from n) (concat (map (plan_commands b) plans))"
  using filter_element_first[of "deletes_from n" "emitted b (sync h b plans)"] deletes_from_element
  by (simp add: emitted_sync[OF assms])

text \<open>
  Claim C9. The plans are a dict, so each interface occurs once. One call of \<open>sync\<close>
  issues at most one add-element and at most one delete-element command for any set; for
  each planned interface the add command of a set names exactly \<open>desired - current\<close> and
  the delete command exactly \<open>current - desired\<close>, and there is no such command when the
  difference is empty; these are all the element commands of the call; and a second
  \<open>sync\<close> with the same plans issues no command at all.
\<close>
theorem nft_sync_minimal:
  assumes "distinct (map fst plans)"
  shows "(\<forall>n. length (filter (adds_to n) (emitted b (sync h b plans))) \<le> 1 \<and>
              length (filter (deletes_from n) (emitted b (sync h b plans))) \<le> 1) \<and>
         (\<forall>(i, pl) \<in> set plans.
            filter (adds_to (set_v4_name i)) (emitted b (sync h b plans)) =
              (if ipv4 pl - current_of (current_v4 b) i = {} then []
               else [AddElement (set_v4_name i) (ipv4 pl - current_of (current_v4 b) i)]) \<and>
            filter (deletes_from (set_v4_name i)) (emitted b (sync h b plans)) =
              (if current_of (current_v4 b) i - ipv4 pl = {} then []
               else [DeleteElement (set_v4_name i) (current_of (current_v4 b) i - ipv4 pl)]) \<and>
            filter (adds_to (set_v6_name i)) (emitted b (sync h b plans)) =
              (if ipv6 pl - current_of (current_v6 b) i = {} then []
               else [AddElement (set_v6_name i) (ipv6 pl - current_of (current_v6 b) i)]) \<and>
            filter (deletes_from (set_v6_name i)) (emitted b (sync h b plans)) =
              (if current_of (current_v6 b) i - ipv6 pl = {} then []
               else [DeleteElement (set_v6_name i) (current_of (current_v6 b) i - ipv6 pl)])) \<and>
         filter is_element_cmd (emitted b (sync h b plans)) = concat (map (plan_commands b) plans) \<and>
         emitted (sync h b plans) (sync h (sync h b plans) plans) = []"
proof (intro conjI allI ballI)
  fix n
  show "length (filter (adds_to n) (emitted b (sync h b plans))) \<le> 1"
    using adds_at_most_one[OF assms, of n b] by (simp add: emitted_adds[OF assms])
  show "length (filter (deletes_from n) (emitted b (sync h b plans))) \<le> 1"
    using deletes_at_most_one[OF assms, of n b] by (simp add: emitted_deletes[OF assms])
next
  fix x assume x: "x \<in> set plans"
  obtain i pl where ip: "x = (i, pl)" by (cases x)
  with x have m: "(i, pl) \<in> set plans" by simp
  have a4: "filter (adds_to (set_v4_name i)) (emitted b (sync h b plans)) =
              (if ipv4 pl - current_of (current_v4 b) i = {} then []
               else [AddElement (set_v4_name i) (ipv4 pl - current_of (current_v4 b) i)])"
    using v4_v6_names[of i i]
    by (simp add: emitted_adds[OF assms] own_plan_adds[OF assms m] plan_adds)
  have d4: "filter (deletes_from (set_v4_name i)) (emitted b (sync h b plans)) =
              (if current_of (current_v4 b) i - ipv4 pl = {} then []
               else [DeleteElement (set_v4_name i) (current_of (current_v4 b) i - ipv4 pl)])"
    using v4_v6_names[of i i]
    by (simp add: emitted_deletes[OF assms] own_plan_deletes[OF assms m] plan_deletes)
  have a6: "filter (adds_to (set_v6_name i)) (emitted b (sync h b plans)) =
              (if ipv6 pl - current_of (current_v6 b) i = {} then []
               else [AddElement (set_v6_name i) (ipv6 pl - current_of (current_v6 b) i)])"
    using v4_v6_names[of i i]
    by (simp add: emitted_adds[OF assms] own_plan_adds[OF assms m] plan_adds)
  have d6: "filter (deletes_from (set_v6_name i)) (emitted b (sync h b plans)) =
              (if current_of (current_v6 b) i - ipv6 pl = {} then []
               else [DeleteElement (set_v6_name i) (current_of (current_v6 b) i - ipv6 pl)])"
    using v4_v6_names[of i i]
    by (simp add: emitted_deletes[OF assms] own_plan_deletes[OF assms m] plan_deletes)
  from a4 d4 a6 d6 show "case x of (i, pl) \<Rightarrow>
            filter (adds_to (set_v4_name i)) (emitted b (sync h b plans)) =
              (if ipv4 pl - current_of (current_v4 b) i = {} then []
               else [AddElement (set_v4_name i) (ipv4 pl - current_of (current_v4 b) i)]) \<and>
            filter (deletes_from (set_v4_name i)) (emitted b (sync h b plans)) =
              (if current_of (current_v4 b) i - ipv4 pl = {} then []
               else [DeleteElement (set_v4_name i) (current_of (current_v4 b) i - ipv4 pl)]) \<and>
            filter (adds_to (set_v6_name i)) (emitted b (sync h b plans)) =
              (if ipv6 pl - current_of (current_v6 b) i = {} then []
               else [AddElement (set_v6_name i) (ipv6 pl - current_of (current_v6 b) i)]) \<and>
            filter (deletes_from (set_v6_name i)) (emitted b (sync h b plans)) =
              (if current_of (current_v6 b) i - ipv6 pl = {} then []
               else [DeleteElement (set_v6_name i) (current_of (current_v6 b) i - ipv6 pl)])"
    unfolding ip by simp
next
  show "filter is_element_cmd (emitted b (sync h b plans)) = concat (map (plan_commands b) plans)"
    by (rule emitted_sync[OF assms])
  show "emitted (sync h b plans) (sync h (sync h b plans) plans) = []"
    by (simp add: sync_twice[OF assms] emitted_def)
qed

theorem nft_sync_minimal_witness:
  "distinct (map fst plans_S5) \<and>
   filter is_element_cmd (emitted backend_S5 (sync host_ok backend_S5 plans_S5)) =
     [AddElement ''wggo_wg0_allowed_v4'' {(''10.0.0.2'', 2222)}] \<and>
   emitted (sync host_ok backend_S5 plans_S5)
     (sync host_ok (sync host_ok backend_S5 plans_S5) plans_S5) = []"
proof -
  have d: "distinct (map fst plans_S5)" by (simp add: plans_S5_def)
  have c: "concat (map (plan_commands backend_S5) plans_S5) =
           [AddElement ''wggo_wg0_allowed_v4'' {(''10.0.0.2'', 2222)}]"
    by code_simp
  from nft_sync_minimal[OF d, of backend_S5 host_ok] d show ?thesis
    unfolding c by blast
qed

section \<open>Properties of the settings reader\<close>

text \<open>
  Claim C2, amended. For a settings row whose \<open>connection_policy\<close> is a string other
  than \<open>new_wins\<close> and \<open>old_wins\<close>, \<open>get_peer_settings\<close> raises: it returns no settings,
  default or other. The error is the ValueError of \<open>from_string\<close> for that string,
  unless \<open>max_concurrent\<close> is a string that \<open>int\<close> rejects, which raises first.
\<close>

theorem get_peer_settings_raises:
  assumes "db interface = Some table" and "table peer_id = Some row"
    and "row ''connection_policy'' = Some (PStr v)"
    and "v \<noteq> ''new_wins''" and "v \<noteq> ''old_wins''"
  shows "(\<exists>e. get_peer_settings db interface peer_id = Inl e) \<and>
         (\<forall>st. get_peer_settings db interface peer_id \<noteq> Inr st) \<and>
         ((\<forall>s. row ''max_concurrent'' = Some (PStr s) \<longrightarrow> py_int s \<noteq> None) \<longrightarrow>
            get_peer_settings db interface peer_id = Inl (UnsupportedPolicy (PStr v)))"
  using assms
  by (auto simp: get_peer_settings_def from_row_def from_string_def row_get_def Let_def
      split: option.splits pyval.splits sum.splits)

theorem get_peer_settings_raises_witness:
  "get_peer_settings limits_db ''wg0'' ''peer2'' = Inl (UnsupportedPolicy (PStr ''newest_wins''))"
proof -
  let ?row = "[''max_concurrent'' \<mapsto> PInt 2, ''connection_policy'' \<mapsto> PStr ''newest_wins'',
            ''session_ttl'' \<mapsto> PInt 60, ''grace_seconds'' \<mapsto> PInt 5]"
  let ?table = "[''peer'' \<mapsto>
           [''max_concurrent'' \<mapsto> PInt 1, ''connection_policy'' \<mapsto> PStr ''new_wins'',
            ''session_ttl'' \<mapsto> PInt 180, ''grace_seconds'' \<mapsto> PInt 0],
         ''peer2'' \<mapsto> ?row]"
  have 1: "limits_db ''wg0'' = Some ?table" by (simp add: limits_db_def)
  have 2: "?table ''peer2'' = Some ?row" by simp
  have 3: "?row ''connection_policy'' = Some (PStr ''newest_wins'')" by simp
  have 4: "\<forall>s. ?row ''max_concurrent'' = Some (PStr s) \<longrightarrow> py_int s \<noteq> None" by simp
  have 5: "''newest_wins'' \<noteq> ''new_wins''" "''newest_wins'' \<noteq> ''old_wins''" by simp_all
  from get_peer_settings_raises[of limits_db "''wg0''" ?table "''peer2''" ?row "''newest_wins''",
      OF 1 2 3 5] 4
  show ?thesis by blast
qed

text \<open>
  Claim C2 as stated fails: the row of \<open>peer2\<close> makes \<open>get_peer_settings\<close> raise, and the
  default settings are not returned.
\<close>

theorem invalid_policy_counterexample:
  "get_peer_settings limits_db ''wg0'' ''peer2'' = Inl (UnsupportedPolicy (PStr ''newest_wins'')) \<and>
   get_peer_settings limits_db ''wg0'' ''peer2'' \<noteq> Inr default_settings"
  by code_simp

section \<open>The iteration and the firewall plan\<close>

text \<open>
  The loop over the active sessions never looks at the allowed endpoints when it fills
  the plan: any two sets of allowed endpoints give the same plan.
\<close>

lemma add_sessions_plan_ignores_allowed:
  "fst (add_sessions allowed1 xs (plan, records1)) = fst (add_sessions allowed2 xs (plan, records2))"
proof (induction xs arbitrary: plan records1 records2)
  case Nil
  then show ?case by simp
next
  case (Cons s xs)
  show ?case by (simp add: Let_def Cons.IH split: option.splits prod.splits)
qed

text \<open>
  Claim C1 on the tick above. The peer's limit is 1; both endpoints are active and only
  10.0.0.2:50001 is allowed. The state repository gets both rows, with \<open>IsAllowed\<close> true
  for the allowed endpoint and false for the other, as the claim says. But the plan's
  IPv4 bucket holds both endpoints, the denied 10.0.0.1:50000 too, and the backend
  issues no command: the denied endpoint stays in the allow-set.
\<close>

theorem iteration_plans_denied_endpoint:
  "(case iteration host_ok limits_db daemon_AB dump_B (seconds 1006) of
      Inl e \<Rightarrow> False
    | Inr (plans, d) \<Rightarrow>
        map endpoint (fst (allowed_sessions (tracker d) ''wg0'' ''peer'' settings_cap1 (seconds 1006))) =
          [ep_B] \<and>
        map (\<lambda>(i, pl). (i, ipv4 pl)) plans =
          [(''wg0'', {(''10.0.0.1'', 50000), (''10.0.0.2'', 50001)})] \<and>
        map (\<lambda>(i, p, r). (Endpoint r, IsAllowed r)) (state_repo d) =
          [(ep_B, True), (ep_A, False)] \<and>
        (case backend d of None \<Rightarrow> [] | Some b \<Rightarrow> issued b) = [])"
  by code_simp

end
